theory Spec2Isabelle
  imports Main
begin

section \<open>Python values and strings\<close>

text \<open>
  A Python \<open>str\<close> is modelled as a \<^typ>\<open>string\<close>; every \<^typ>\<open>char\<close> stands for one code
  point below 256. The values that reach \<open>add_message\<close> and that an agent run may carry as
  its \<open>final_output\<close> are strings or something else; only \<open>isinstance(v, str)\<close> is ever
  asked of them.
\<close>

datatype pyval = PyStr string | PyNone | PyInt int | PyBool bool

fun isinstance_str :: "pyval \<Rightarrow> bool" where
  "isinstance_str (PyStr t) = True"
| "isinstance_str v = False"

text \<open>The code points below 256 for which \<open>str.isspace()\<close> holds.\<close>

definition whitespace :: "char list" where
  "whitespace = [CHR 0x09, CHR 0x0A, CHR 0x0B, CHR 0x0C, CHR 0x0D, CHR 0x1C, CHR 0x1D,
                 CHR 0x1E, CHR 0x1F, CHR 0x20, CHR 0x85, CHR 0xA0]"

definition isspace :: "char \<Rightarrow> bool" where
  "isspace c = (c \<in> set whitespace)"

text \<open>\<open>str.strip()\<close>: leading and trailing whitespace removed.\<close>

definition strip :: "string \<Rightarrow> string" where
  "strip t = rev (dropWhile isspace (rev (dropWhile isspace t)))"

section \<open>The message store (conversation.py)\<close>

text \<open>
  A message is the dict \<open>{"role": ..., "content": ...}\<close> built by \<open>add_message\<close>; both
  values are strings.
\<close>

record message =
  role :: string
  content :: string

text \<open>
  Python lists and dicts are mutable objects reached through references, and
  \<open>get_history\<close> copies the list only. The heap is therefore explicit: \<open>list_objs\<close> holds
  the list objects (each a list of references to dicts) and \<open>dict_objs\<close> the message
  dicts; a reference is an index, and a new object is put at the end. The three fields of
  \<open>ConversationHistory\<close> are kept beside the heap, \<open>messages\<close> being the reference to the
  list object \<open>self.messages\<close>. \<open>calls\<close> records every \<open>Runner.run\<close> invocation made so
  far: the agent, the turn during which it was invoked (0 outside the loop) and the
  messages passed as input.
\<close>

type_synonym addr = nat

datatype agent = UserAgent | ExpertAgent

type_synonym call = "agent \<times> int \<times> message list"

record store =
  max_iterations :: int
  messages :: addr
  current_turn :: int
  list_objs :: "addr list list"
  dict_objs :: "message list"
  calls :: "call list"

datatype error = ValueError string | FileNotFoundError string | IOError string

text \<open>The contents of a list object, and the messages a list object refers to.\<close>

definition list_at :: "store \<Rightarrow> addr \<Rightarrow> addr list" where
  "list_at s l = list_objs s ! l"

definition dict_at :: "store \<Rightarrow> addr \<Rightarrow> message" where
  "dict_at s d = dict_objs s ! d"

definition value_at :: "store \<Rightarrow> addr \<Rightarrow> message list" where
  "value_at s l = map (dict_at s) (list_at s l)"

text \<open>What an observer of the store sees: the messages of \<open>self.messages\<close>, in order.\<close>

definition history_view :: "store \<Rightarrow> message list" where
  "history_view s = value_at s (messages s)"

text \<open>
  A store is well formed when \<open>self.messages\<close> refers to a list object whose elements
  refer to dict objects. Python never produces anything else.
\<close>

definition well_formed :: "store \<Rightarrow> bool" where
  "well_formed s = (messages s < length (list_objs s) \<and>
           list_all (\<lambda>d. d < length (dict_objs s)) (list_at s (messages s)))"

text \<open>Allocation: \<open>{...}\<close> builds a dict object, \<open>[...]\<close> and \<open>.copy()\<close> a list object.\<close>

definition new_dict :: "message \<Rightarrow> store \<Rightarrow> addr \<times> store" where
  "new_dict m s = (length (dict_objs s), s\<lparr>dict_objs := dict_objs s @ [m]\<rparr>)"

definition new_list :: "addr list \<Rightarrow> store \<Rightarrow> addr \<times> store" where
  "new_list xs s = (length (list_objs s), s\<lparr>list_objs := list_objs s @ [xs]\<rparr>)"

text \<open>\<open>some_list.append(d)\<close>: the list object is changed in place.\<close>

definition list_append :: "addr \<Rightarrow> addr \<Rightarrow> store \<Rightarrow> store" where
  "list_append l d s = s\<lparr>list_objs := (list_objs s)[l := list_at s l @ [d]]\<rparr>"

text \<open>
  \<open>add_message\<close> returns the exception raised, if any, and the store afterwards.
\<close>

definition add_message :: "string \<Rightarrow> pyval \<Rightarrow> store \<Rightarrow> error option \<times> store" where
  "add_message r c s =
     (if r \<notin> set [''user'', ''assistant'', ''system'']
      then (Some (ValueError (''Invalid role '' @ [CHR 0x27] @ r @ [CHR 0x27] @
                              ''. Must be 'user', 'assistant', or 'system'.'')), s)
      else case c of
             PyStr t \<Rightarrow>
               (let (d, s1) = new_dict \<lparr>role = r, content = t\<rparr> s
                in (None, list_append (messages s1) d s1))
           | _ \<Rightarrow> (Some (ValueError ''Message content must be a string.''), s))"

text \<open>\<open>get_history\<close>: \<open>self.messages.copy()\<close>, a new list object with the same elements.\<close>

definition get_history :: "store \<Rightarrow> addr \<times> store" where
  "get_history s = new_list (list_at s (messages s)) s"

definition increment_turn :: "store \<Rightarrow> store" where
  "increment_turn s = s\<lparr>current_turn := current_turn s + 1\<rparr>"

definition is_complete :: "store \<Rightarrow> bool" where
  "is_complete s = (current_turn s \<ge> max_iterations s)"

text \<open>
  Construction. A \<open>Path\<close> is seen through \<open>str(path)\<close> and \<open>path.name\<close>; the file system
  says for each path whether nothing is there, a directory, a file whose text
  \<open>read_text\<close> returns, or a file whose reading raises (an exception other than
  \<open>FileNotFoundError\<close>, with its message).
\<close>

record path =
  path_str :: string
  name :: string

datatype fs_entry = Absent | Directory | File string | Unreadable string

type_synonym filesystem = "path \<Rightarrow> fs_entry"

fun exists_path :: "fs_entry \<Rightarrow> bool" where
  "exists_path Absent = False"
| "exists_path e = True"

fun is_file :: "fs_entry \<Rightarrow> bool" where
  "is_file (File t) = True"
| "is_file (Unreadable e) = True"
| "is_file e = False"

fun error_message :: "error \<Rightarrow> string" where
  "error_message (ValueError m) = m"
| "error_message (FileNotFoundError m) = m"
| "error_message (IOError m) = m"

definition newline :: string where
  "newline = [CHR 0x0A]"

definition load_from_file :: "path \<Rightarrow> filesystem \<Rightarrow> store \<Rightarrow> error option \<times> store" where
  "load_from_file file_path fs s =
     (if \<not> exists_path (fs file_path) \<or> \<not> is_file (fs file_path)
      then (Some (FileNotFoundError (''History file not found: '' @ path_str file_path)), s)
      else case fs file_path of
             File t \<Rightarrow>
               (let content = strip t
                in if content \<noteq> []
                   then (case add_message ''system''
                                (PyStr (''Initial context from history file ('' @ name file_path
                                        @ ''):'' @ newline @ ''---'' @ newline @ content
                                        @ newline @ ''---'')) s of
                           (None, s1) \<Rightarrow> (None, s1)
                         | (Some e, s1) \<Rightarrow>
                             (Some (IOError (''Error processing history file ''
                                             @ path_str file_path @ '': '' @ error_message e)), s1))
                   else (None, s))
           | Unreadable e \<Rightarrow>
               (Some (IOError (''Error processing history file '' @ path_str file_path
                               @ '': '' @ e)), s)
           | _ \<Rightarrow> (None, s))"

text \<open>
  \<open>ConversationHistory.__init__\<close>: the new object, with its empty list, in an empty heap.
  A constructor that raises yields no object.
\<close>

definition empty_history :: "int \<Rightarrow> store" where
  "empty_history n = \<lparr>max_iterations = n, messages = 0, current_turn = 0,
                       list_objs = [[]], dict_objs = [], calls = []\<rparr>"

definition init_history :: "int \<Rightarrow> path option \<Rightarrow> filesystem \<Rightarrow> error + store" where
  "init_history n history_file_path fs =
     (case history_file_path of
        None \<Rightarrow> Inr (empty_history n)
      | Some p \<Rightarrow>
          (case load_from_file p fs (empty_history n) of
             (None, s) \<Rightarrow> Inr s
           | (Some e, s) \<Rightarrow> Inl e))"

text \<open>
  What a caller holding a reference can do to a Python object: give a list object any
  new contents (\<open>append\<close>, \<open>del\<close>, \<open>clear\<close>, item assignment), and assign an item of a dict.
\<close>

definition list_assign :: "addr \<Rightarrow> addr list \<Rightarrow> store \<Rightarrow> store" where
  "list_assign l xs s = s\<lparr>list_objs := (list_objs s)[l := xs]\<rparr>"

definition dict_set_content :: "addr \<Rightarrow> string \<Rightarrow> store \<Rightarrow> store" where
  "dict_set_content d t s = s\<lparr>dict_objs := (dict_objs s)[d := (dict_at s d)\<lparr>content := t\<rparr>]\<rparr>"

section \<open>The conversation loop (engine.py)\<close>

text \<open>
  \<open>Runner.run\<close> is the inference service. It either raises (with a message) or returns a
  result, which is falsy (\<open>None\<close>) or carries a \<open>final_output\<close>. The service is a
  parameter: in one run an agent is invoked at most once per turn, so a reply that may
  depend on the agent, on the turn and on the input covers every deterministic service.
  It reads its input and changes nothing.
\<close>

datatype run_outcome = Raises string | Returns "pyval option"

type_synonym runner = "agent \<Rightarrow> int \<Rightarrow> message list \<Rightarrow> run_outcome"

definition Runner_run :: "runner \<Rightarrow> agent \<Rightarrow> int \<Rightarrow> addr \<Rightarrow> store \<Rightarrow> run_outcome \<times> store" where
  "Runner_run run ag t inp s =
     (run ag t (value_at s inp), s\<lparr>calls := calls s @ [(ag, t, value_at s inp)]\<rparr>)"

text \<open>
  \<open>x = None; if result and isinstance(result.final_output, str): x = result.final_output.strip()\<close>
\<close>

fun stripped_output :: "pyval option \<Rightarrow> string option" where
  "stripped_output (Some (PyStr t)) = Some (strip t)"
| "stripped_output r = None"

datatype flow = Continue | Break | Propagate error

text \<open>The second half of an iteration, from \<open>Expert Agent Turn Logic\<close> to the turn increment.\<close>

definition expert_turn :: "runner \<Rightarrow> int \<Rightarrow> store \<Rightarrow> flow \<times> store" where
  "expert_turn run turn s =
     (let (current_history_for_expert, s1) = get_history s;
          (expert_agent_result, s2) = Runner_run run ExpertAgent turn current_history_for_expert s1
      in case expert_agent_result of
           Raises e \<Rightarrow> (Break, s2)
         | Returns r \<Rightarrow>
             (case stripped_output r of
                None \<Rightarrow> (Break, s2)
              | Some answer \<Rightarrow>
                  if answer = [] then (Break, s2)
                  else (case add_message ''assistant'' (PyStr answer) s2 of
                          (Some e, s3) \<Rightarrow> (Propagate e, s3)
                        | (None, s3) \<Rightarrow> (Continue, increment_turn s3))))"

text \<open>
  The input of the user agent: the copy of the history, or, when it is empty, a new list
  holding one new system message that states the goal.
\<close>

definition user_agent_prompt :: "string \<Rightarrow> store \<Rightarrow> addr \<times> store" where
  "user_agent_prompt user_goal s =
     (let (current_history_for_user, s1) = get_history s
      in if list_at s1 current_history_for_user = []
         then (let (d, s2) = new_dict \<lparr>role = ''system'',
                                content = ''The conversation goal is: '' @ user_goal\<rparr> s1
               in new_list [d] s2)
         else (current_history_for_user, s1))"

text \<open>One iteration of \<open>while not self.history.is_complete()\<close>.\<close>

definition loop_body :: "runner \<Rightarrow> string \<Rightarrow> store \<Rightarrow> flow \<times> store" where
  "loop_body run user_goal s =
     (let turn = current_turn s + 1;
          (user_agent_input, s1) = user_agent_prompt user_goal s;
          (user_agent_result, s2) = Runner_run run UserAgent turn user_agent_input s1
      in case user_agent_result of
           Raises e \<Rightarrow> (Break, s2)
         | Returns r \<Rightarrow>
             (case stripped_output r of
                None \<Rightarrow> (Continue, increment_turn s2)
              | Some question \<Rightarrow>
                  if question = [] then (Continue, increment_turn s2)
                  else (case add_message ''user'' (PyStr question) s2 of
                          (Some e, s3) \<Rightarrow> (Propagate e, s3)
                        | (None, s3) \<Rightarrow> expert_turn run turn s3)))"

text \<open>
  How the loop is left: by its condition (\<open>Completed\<close>), by a \<open>break\<close> (\<open>Aborted\<close>), or by
  an exception that leaves \<open>run_conversation\<close> (\<open>Raised\<close>).
\<close>

datatype loop_exit = Completed | Aborted | Raised error

text \<open>
  The loop of \<open>run_conversation\<close>. Every iteration that does not leave the loop advances
  the turn counter, so the distance to \<open>max_iterations\<close> shrinks.
\<close>

function conversation_loop :: "runner \<Rightarrow> string \<Rightarrow> store \<Rightarrow> loop_exit \<times> store" where
  "conversation_loop run user_goal s =
     (if is_complete s then (Completed, s)
      else case loop_body run user_goal s of
             (Continue, s') \<Rightarrow> conversation_loop run user_goal s'
           | (Break, s') \<Rightarrow> (Aborted, s')
           | (Propagate e, s') \<Rightarrow> (Raised e, s'))"
  by pat_completeness auto
termination
proof (relation "measure (\<lambda>(run, g, s). nat (max_iterations s - current_turn s))")
  show "wf (measure (\<lambda>(run, g, s). nat (max_iterations s - current_turn s)))"
    by simp
next
  fix run :: runner and user_goal s x s'
  assume "\<not> is_complete s" and "(x, s') = loop_body run user_goal s" and "x = Continue"
  then have c: "loop_body run user_goal s = (Continue, s')"
    and "current_turn s < max_iterations s"
    by (simp_all add: is_complete_def)
  from c have "current_turn s' = current_turn s + 1 \<and> max_iterations s' = max_iterations s"
    by (auto simp: loop_body_def expert_turn_def user_agent_prompt_def Runner_run_def
        get_history_def new_list_def new_dict_def add_message_def list_append_def
        increment_turn_def Let_def
        split: prod.splits run_outcome.splits option.splits if_splits)
  with \<open>current_turn s < max_iterations s\<close>
  show "((run, user_goal, s'), (run, user_goal, s))
          \<in> measure (\<lambda>(run, g, s). nat (max_iterations s - current_turn s))"
    by simp
qed

declare conversation_loop.simps [simp del]

text \<open>
  The same loop cut off after \<open>n\<close> iterations: the store reached, and how the loop was
  left if it was left by then. With \<open>n - 1\<close> it gives the store at the start of the
  \<open>n\<close>-th iteration.
\<close>

fun iterations :: "nat \<Rightarrow> runner \<Rightarrow> string \<Rightarrow> store \<Rightarrow> loop_exit option \<times> store" where
  "iterations 0 run user_goal s = (None, s)"
| "iterations (Suc n) run user_goal s =
     (if is_complete s then (Some Completed, s)
      else case loop_body run user_goal s of
             (Continue, s') \<Rightarrow> iterations n run user_goal s'
           | (Break, s') \<Rightarrow> (Some Aborted, s')
           | (Propagate e, s') \<Rightarrow> (Some (Raised e), s'))"

section \<open>The output manager (output\_manager.py)\<close>

text \<open>\<open>str(n)\<close> for the integers that are printed.\<close>

definition digits :: string where
  "digits = ''0123456789''"

fun str_nat :: "nat \<Rightarrow> string" where
  "str_nat n = (if n < 10 then [digits ! n] else str_nat (n div 10) @ [digits ! (n mod 10)])"

declare str_nat.simps [simp del]

definition str_int :: "int \<Rightarrow> string" where
  "str_int i = (if i < 0 then ''-'' @ str_nat (nat (- i)) else str_nat (nat i))"

text \<open>
  \<open>str.capitalize()\<close> is Python's own and is called for a role other than the three of
  \<open>add_message\<close> only. It is a parameter of the formatting functions, \<open>capitalize\<close>:
  what is proved of them holds whatever it returns.
\<close>

definition role_title :: "(string \<Rightarrow> string) \<Rightarrow> string \<Rightarrow> string" where
  "role_title capitalize r =
     (if r = ''user'' then ''User''
      else if r = ''assistant'' then ''Expert''
      else if r = ''system'' then ''System''
      else capitalize r)"

text \<open>
  The heading of the message that \<open>enumerate(messages, 1)\<close> numbers \<open>i\<close>:
  \<open>f"## {role_title} (Turn {(i+1)//2 if role != 'system' else 0})"\<close>.
\<close>

definition display_turn :: "nat \<Rightarrow> string \<Rightarrow> nat" where
  "display_turn i r = (if r \<noteq> ''system'' then (i + 1) div 2 else 0)"

definition heading :: "(string \<Rightarrow> string) \<Rightarrow> nat \<Rightarrow> message \<Rightarrow> string" where
  "heading capitalize i m =
     ''## '' @ role_title capitalize (role m) @ '' (Turn '' @ str_nat (display_turn i (role m)) @ '')''"

definition message_lines :: "(string \<Rightarrow> string) \<Rightarrow> nat \<times> message \<Rightarrow> string list" where
  "message_lines capitalize im = [heading capitalize (fst im) (snd im), content (snd im), []]"

text \<open>The list \<open>lines\<close>; \<open>now\<close> is the formatted time of the call.\<close>

definition transcript_lines ::
  "(string \<Rightarrow> string) \<Rightarrow> string \<Rightarrow> int \<Rightarrow> message list \<Rightarrow> string list" where
  "transcript_lines capitalize now turns ms =
     [''# Conversation Transcript (Generated: '' @ now @ '')'',
      ''# Total Turns: '' @ str_int turns,
      []] @ concat (map (message_lines capitalize) (enumerate 1 ms))"

fun join :: "string \<Rightarrow> string list \<Rightarrow> string" where
  "join sep [] = []"
| "join sep [x] = x"
| "join sep (x # y # ys) = x @ sep @ join sep (y # ys)"

definition format_conversation ::
  "(string \<Rightarrow> string) \<Rightarrow> string \<Rightarrow> store \<Rightarrow> string \<times> store" where
  "format_conversation capitalize now s =
     (let (msgs, s1) = get_history s
      in if list_at s1 msgs = [] then (''No conversation history available.'', s1)
         else (join newline (transcript_lines capitalize now (current_turn s1)
                                (value_at s1 msgs)), s1))"

definition takeaway_prompt :: "string \<Rightarrow> string" where
  "takeaway_prompt user_goal =
     ''Based on the preceding conversation transcript where the initial goal was ''
     @ [CHR 0x22] @ user_goal @ [CHR 0x22] @ '', ''
     @ ''please distill the key takeaways, insights, and conclusions. ''
     @ ''Focus on the most important information relevant to the original goal. ''
     @ ''Present the takeaways clearly and concisely, perhaps as bullet points.''
     @ ''Do not refer to yourself, just provide the takeaways.''"

text \<open>
  \<open>generate_takeaways\<close> returns a string in every case. \<open>full_history + [...]\<close> builds
  the dict, the one-element list and their concatenation as new objects.
\<close>

definition generate_takeaways :: "runner \<Rightarrow> string \<Rightarrow> store \<Rightarrow> string \<times> store" where
  "generate_takeaways run user_goal s =
     (let (full_history, s1) = get_history s
      in if list_at s1 full_history = []
         then (''Error: Cannot generate takeaways from empty history.'', s1)
         else
           (let (d, s2) = new_dict \<lparr>role = ''user'', content = takeaway_prompt user_goal\<rparr> s1;
                (one, s3) = new_list [d] s2;
                (summarization_input, s4) = new_list (list_at s3 full_history @ list_at s3 one) s3;
                (takeaway_result, s5) = Runner_run run ExpertAgent 0 summarization_input s4
            in case takeaway_result of
                 Raises e \<Rightarrow> (''Error generating takeaways: '' @ e, s5)
               | Returns r \<Rightarrow>
                   (case stripped_output r of
                      Some takeaways \<Rightarrow> (takeaways, s5)
                    | None \<Rightarrow> (''Error: Failed to generate valid takeaways from the LLM.'', s5))))"

text \<open>The engine's test for an error-flagged result: \<open>takeaways.startswith("Error:")\<close>.\<close>

definition error_flagged :: "string \<Rightarrow> bool" where
  "error_flagged t = (take 6 t = ''Error:'')"

text \<open>
  \<open>run_conversation\<close> after the loop, file names left out: the text handed to the
  transcript file (\<open>None\<close> when the save fails, which \<open>can_write\<close> decides) and the
  takeaways handed to \<open>save_takeaways\<close>. An exception out of the loop leaves the method at
  once.
\<close>

definition run_conversation ::
  "(string \<Rightarrow> string) \<Rightarrow> runner \<Rightarrow> string \<Rightarrow> string \<Rightarrow> bool \<Rightarrow> store
     \<Rightarrow> (loop_exit \<times> string option \<times> string option) \<times> store" where
  "run_conversation capitalize run user_goal now can_write s =
     (let (ex, s1) = conversation_loop run user_goal s
      in case ex of
           Raised e \<Rightarrow> ((ex, None, None), s1)
         | _ \<Rightarrow>
            (let (formatted_text, s2) = format_conversation capitalize now s1
             in if \<not> can_write then ((ex, None, None), s2)
                else (let (takeaways, s3) = generate_takeaways run user_goal s2
                      in ((ex, Some formatted_text,
                           if error_flagged takeaways then None else Some takeaways), s3))))"

section \<open>Notions used in the statements\<close>

text \<open>The messages the user agent is given when the history is \<open>h\<close>.\<close>

definition prompt_value :: "string \<Rightarrow> message list \<Rightarrow> message list" where
  "prompt_value user_goal h =
     (if h = [] then [\<lparr>role = ''system'', content = ''The conversation goal is: '' @ user_goal\<rparr>]
      else h)"

text \<open>
  What the loop asks of a reply. \<open>usable\<close>: a string that is not empty once stripped, the
  only reply that lets an agent's half of the turn go on. \<open>nonempty_text\<close>: a string that
  is not empty. \<open>empty_or_non_string\<close>: a result that is falsy, carries something that is
  not a string, or carries the empty string.
\<close>

fun usable :: "run_outcome \<Rightarrow> bool" where
  "usable (Returns (Some (PyStr t))) = (strip t \<noteq> [])"
| "usable out = False"

fun nonempty_text :: "run_outcome \<Rightarrow> bool" where
  "nonempty_text (Returns (Some (PyStr t))) = (t \<noteq> [])"
| "nonempty_text out = False"

fun empty_or_non_string :: "run_outcome \<Rightarrow> bool" where
  "empty_or_non_string (Raises e) = False"
| "empty_or_non_string (Returns (Some (PyStr t))) = (t = [])"
| "empty_or_non_string (Returns r) = True"

fun raises :: "run_outcome \<Rightarrow> bool" where
  "raises (Raises e) = True"
| "raises out = False"

definition count_role :: "string \<Rightarrow> message list \<Rightarrow> nat" where
  "count_role r ms = length (filter (\<lambda>m. role m = r) ms)"

text \<open>
  A history made of questions and answers only, a question first.
\<close>

definition dialogue :: "message list \<Rightarrow> bool" where
  "dialogue h = (list_all (\<lambda>m. role m = ''user'' \<or> role m = ''assistant'') h
                 \<and> (case h of [] \<Rightarrow> True | m # ms \<Rightarrow> role m = ''user''))"

section \<open>Stores and services used as examples\<close>

text \<open>
  The store holding the single message user \<open>Q\<close>, and the same store after a caller has
  taken \<open>snap = get_history()\<close> and run \<open>snap[0]["content"] = "changed"\<close>.
\<close>

definition one_message_store :: store where
  "one_message_store = snd (add_message ''user'' (PyStr ''Q'') (empty_history 1))"

definition after_snapshot_item_mutation :: store where
  "after_snapshot_item_mutation =
     (let (snap, s1) = get_history one_message_store
      in dict_set_content (list_at s1 snap ! 0) ''changed'' s1)"

definition seed_path :: path where
  "seed_path = \<lparr>path_str = ''config/seed.txt'', name = ''seed.txt''\<rparr>"

text \<open>A service that gives the same outcome to every invocation.\<close>

definition constant_runner :: "run_outcome \<Rightarrow> runner" where
  "constant_runner out = (\<lambda>ag t inp. out)"

text \<open>
  A service that answers \<open>Q1\<close>, \<open>Q2\<close>, ... as the user agent and \<open>A1\<close>, \<open>A2\<close>, ... as the
  expert agent, and the same service with the outcome of one agent at one turn replaced.
\<close>

definition scripted_runner :: runner where
  "scripted_runner ag t inp =
     Returns (Some (PyStr ((case ag of UserAgent \<Rightarrow> ''Q'' | ExpertAgent \<Rightarrow> ''A'')
                           @ str_nat (nat t))))"

definition override :: "agent \<Rightarrow> int \<Rightarrow> run_outcome \<Rightarrow> runner \<Rightarrow> runner" where
  "override ag k out run = (\<lambda>ag' t inp. if ag' = ag \<and> t = k then out else run ag' t inp)"

text \<open>
  The scripted service with a question of whitespace on turn 1 and an expert agent that
  raises on turn 2; and with an empty question on turn 1 and an answer of whitespace on
  turn 2.
\<close>

definition blank_question_then_raise :: runner where
  "blank_question_then_raise =
     override ExpertAgent 2 (Raises ''unavailable'')
       (override UserAgent 1 (Returns (Some (PyStr '' ''))) scripted_runner)"

definition empty_question_blank_answer :: runner where
  "empty_question_blank_answer =
     override UserAgent 1 (Returns (Some (PyStr [])))
       (override ExpertAgent 2 (Returns (Some (PyStr '' ''))) scripted_runner)"

text \<open>A run of one turn with the scripted service, the transcript being written.\<close>

definition example_run :: "(loop_exit \<times> string option \<times> string option) \<times> store" where
  "example_run =
     run_conversation (\<lambda>r. r) scripted_runner ''goal'' ''2025-01-01 10:00:00'' True (empty_history 1)"

section \<open>Facts about the store operations\<close>

text \<open>Fields that the allocation of objects and an agent invocation leave alone.\<close>

lemma get_history_fields:
  "get_history s = (l, s1) \<Longrightarrow>
     current_turn s1 = current_turn s \<and> max_iterations s1 = max_iterations s \<and>
     messages s1 = messages s \<and> calls s1 = calls s \<and> dict_objs s1 = dict_objs s"
  by (auto simp: get_history_def new_list_def)

lemma new_dict_fields:
  "new_dict m s = (d, s1) \<Longrightarrow>
     current_turn s1 = current_turn s \<and> max_iterations s1 = max_iterations s \<and>
     messages s1 = messages s \<and> calls s1 = calls s \<and> list_objs s1 = list_objs s"
  by (auto simp: new_dict_def)

lemma new_list_fields:
  "new_list xs s = (l, s1) \<Longrightarrow>
     current_turn s1 = current_turn s \<and> max_iterations s1 = max_iterations s \<and>
     messages s1 = messages s \<and> calls s1 = calls s \<and> dict_objs s1 = dict_objs s"
  by (auto simp: new_list_def)

lemma Runner_run_fields:
  "Runner_run run ag t inp s = (r, s1) \<Longrightarrow>
     current_turn s1 = current_turn s \<and> max_iterations s1 = max_iterations s \<and>
     messages s1 = messages s \<and> list_objs s1 = list_objs s \<and> dict_objs s1 = dict_objs s"
  by (auto simp: Runner_run_def)

lemma add_message_fields:
  "add_message r c s = (e, s1) \<Longrightarrow>
     current_turn s1 = current_turn s \<and> max_iterations s1 = max_iterations s \<and>
     messages s1 = messages s \<and> calls s1 = calls s"
  by (auto simp: add_message_def new_dict_def list_append_def split: if_splits pyval.splits)

lemma user_agent_prompt_fields:
  "user_agent_prompt g s = (l, s1) \<Longrightarrow>
     current_turn s1 = current_turn s \<and> max_iterations s1 = max_iterations s \<and>
     messages s1 = messages s \<and> calls s1 = calls s"
  by (auto simp: user_agent_prompt_def split: prod.splits if_splits
      dest!: get_history_fields new_dict_fields new_list_fields)

lemma expert_turn_Continue:
  assumes "expert_turn run t s = (Continue, s')"
  shows "current_turn s' = current_turn s + 1 \<and> max_iterations s' = max_iterations s"
  using assms
  by (auto simp: expert_turn_def increment_turn_def
      split: prod.splits run_outcome.splits option.splits if_splits
      dest!: get_history_fields Runner_run_fields add_message_fields)

lemma loop_body_Continue:
  assumes "loop_body run g s = (Continue, s')"
  shows "current_turn s' = current_turn s + 1 \<and> max_iterations s' = max_iterations s"
  using assms
  by (auto simp: loop_body_def Let_def increment_turn_def
      split: prod.splits run_outcome.splits option.splits if_splits
      dest!: user_agent_prompt_fields Runner_run_fields add_message_fields
             expert_turn_Continue)

lemma new_dict_view:
  assumes "well_formed s" and "new_dict m s = (d, s1)"
  shows "history_view s1 = history_view s" and "well_formed s1" and "d = length (dict_objs s)"
    and "messages s1 = messages s" and "list_objs s1 = list_objs s"
    and "dict_objs s1 = dict_objs s @ [m]"
  using assms
  by (auto simp: new_dict_def well_formed_def history_view_def value_at_def list_at_def dict_at_def
      list_all_iff nth_append less_Suc_eq)

lemma add_message_ok:
  assumes "well_formed s" and "r \<in> {''user'', ''assistant'', ''system''}"
  shows "\<exists>s'. add_message r (PyStr t) s = (None, s') \<and> well_formed s' \<and>
           history_view s' = history_view s @ [\<lparr>role = r, content = t\<rparr>] \<and>
           messages s' = messages s \<and> current_turn s' = current_turn s \<and>
           max_iterations s' = max_iterations s \<and> calls s' = calls s"
  using assms
  by (auto simp: add_message_def new_dict_def list_append_def well_formed_def history_view_def
      value_at_def list_at_def dict_at_def list_all_iff nth_append less_Suc_eq)

section \<open>Claims about the message store\<close>

text \<open>
  C5. For a role among system, user and assistant and a string content, \<open>add_message\<close>
  raises nothing and the observed history afterwards is the one before followed by exactly
  the new message (so one longer, the earlier messages and their order kept). For any
  other role, and for a content that is not a string, it raises \<open>ValueError\<close> and the
  store afterwards is the store before.
\<close>

theorem add_message_appends_or_fails_unchanged:
  assumes "well_formed s"
  shows "(r \<in> {''system'', ''user'', ''assistant''} \<longrightarrow>
            fst (add_message r (PyStr t) s) = None \<and>
            history_view (snd (add_message r (PyStr t) s))
              = history_view s @ [\<lparr>role = r, content = t\<rparr>] \<and>
            length (history_view (snd (add_message r (PyStr t) s)))
              = length (history_view s) + 1)
       \<and> (r \<notin> {''system'', ''user'', ''assistant''} \<longrightarrow>
            (\<exists>e. fst (add_message r c s) = Some (ValueError e)) \<and>
            snd (add_message r c s) = s)
       \<and> (\<not> isinstance_str c \<longrightarrow>
            (\<exists>e. fst (add_message r c s) = Some (ValueError e)) \<and>
            snd (add_message r c s) = s)"
proof (intro conjI impI)
  assume r: "r \<in> {''system'', ''user'', ''assistant''}"
  then have "r \<in> {''user'', ''assistant'', ''system''}" by auto
  from add_message_ok [OF assms this, of t] obtain s' where
    s': "add_message r (PyStr t) s = (None, s')"
        "history_view s' = history_view s @ [\<lparr>role = r, content = t\<rparr>]"
    by blast
  show "fst (add_message r (PyStr t) s) = None" using s' by simp
  show "history_view (snd (add_message r (PyStr t) s))
          = history_view s @ [\<lparr>role = r, content = t\<rparr>]" using s' by simp
  show "length (history_view (snd (add_message r (PyStr t) s)))
          = length (history_view s) + 1" using s' by simp
next
  assume "r \<notin> {''system'', ''user'', ''assistant''}"
  then show "\<exists>e. fst (add_message r c s) = Some (ValueError e)"
    and "snd (add_message r c s) = s"
    by (auto simp: add_message_def)
next
  assume "\<not> isinstance_str c"
  then show "\<exists>e. fst (add_message r c s) = Some (ValueError e)"
    and "snd (add_message r c s) = s"
    by (cases c; auto simp: add_message_def)+
qed

lemma well_formed_empty_history: "well_formed (empty_history n)"
  by (simp add: well_formed_def empty_history_def list_at_def)

theorem add_message_appends_or_fails_unchanged_witness:
  "history_view (snd (add_message ''user'' (PyStr ''hi'') (empty_history 2)))
     = [\<lparr>role = ''user'', content = ''hi''\<rparr>]
   \<and> snd (add_message ''tool'' (PyStr ''hi'') (empty_history 2)) = empty_history 2
   \<and> snd (add_message ''user'' PyNone (empty_history 2)) = empty_history 2"
  using add_message_appends_or_fails_unchanged
          [where s = "empty_history 2" and r = "''user''" and t = "''hi''" and c = PyNone]
        add_message_appends_or_fails_unchanged
          [where s = "empty_history 2" and r = "''tool''" and t = "''hi''" and c = "PyStr ''hi''"]
  by (simp add: history_view_def value_at_def empty_history_def list_at_def well_formed_def)

text \<open>
  What does hold of \<open>get_history\<close>: the new list has the value of the stored history, the
  store is observed as before, and whatever is done to the new list object itself leaves
  the observed history alone.
\<close>

lemma get_history_view:
  assumes "well_formed s" and "get_history s = (l, s1)"
  shows "value_at s1 l = history_view s" and "history_view s1 = history_view s"
    and "well_formed s1" and "l \<noteq> messages s1" and "list_at s1 l = list_at s (messages s)"
  using assms
  by (auto simp: get_history_def new_list_def well_formed_def history_view_def value_at_def
      list_at_def dict_at_def nth_append)

lemma get_history_twice:
  assumes "well_formed s" and "get_history s = (l1, s1)" and "get_history s1 = (l2, s2)"
  shows "value_at s2 l1 = value_at s2 l2" and "value_at s2 l2 = history_view s"
  using assms
  by (auto simp: get_history_def new_list_def well_formed_def history_view_def value_at_def
      list_at_def dict_at_def nth_append)

lemma snapshot_list_mutation_harmless:
  assumes "well_formed s" and "get_history s = (l, s1)"
  shows "history_view (list_assign l xs s1) = history_view s"
  using assms
  by (auto simp: get_history_def new_list_def well_formed_def history_view_def value_at_def
      list_at_def dict_at_def nth_append list_assign_def)

text \<open>
  C2. The copy is shallow. In a store holding the single message user "Q", a caller takes
  \<open>snap = get_history()\<close> and runs \<open>snap[0]["content"] = "changed"\<close>: the store is then
  observed to hold user "changed", although nothing was added to it.
\<close>

theorem snapshot_shares_message_dicts:
  "history_view one_message_store = [\<lparr>role = ''user'', content = ''Q''\<rparr>]
   \<and> value_at (snd (get_history one_message_store)) (fst (get_history one_message_store))
       = [\<lparr>role = ''user'', content = ''Q''\<rparr>]
   \<and> history_view after_snapshot_item_mutation = [\<lparr>role = ''user'', content = ''changed''\<rparr>]"
  by (simp add: after_snapshot_item_mutation_def one_message_store_def get_history_def
      new_list_def add_message_def new_dict_def list_append_def empty_history_def
      dict_set_content_def history_view_def value_at_def list_at_def dict_at_def)

section \<open>Construction from a seed file\<close>

lemma history_view_empty_history: "history_view (empty_history n) = []"
  by (simp add: history_view_def value_at_def list_at_def empty_history_def)

lemma load_from_file_cases:
  "load_from_file p fs (empty_history n) =
     (case fs p of
        Absent \<Rightarrow> (Some (FileNotFoundError (''History file not found: '' @ path_str p)), empty_history n)
      | Directory \<Rightarrow> (Some (FileNotFoundError (''History file not found: '' @ path_str p)), empty_history n)
      | File t \<Rightarrow> (if strip t \<noteq> []
                   then add_message ''system'' (PyStr (''Initial context from history file ('' @ name p
                                        @ ''):'' @ newline @ ''---'' @ newline @ strip t
                                        @ newline @ ''---'')) (empty_history n)
                   else (None, empty_history n))
      | Unreadable e \<Rightarrow> (Some (IOError (''Error processing history file '' @ path_str p
                               @ '': '' @ e)), empty_history n))"
  by (auto simp: load_from_file_def Let_def add_message_def new_dict_def split: fs_entry.splits)

text \<open>
  C8. Construction with a seed path. When nothing is at the path, or a directory, the
  constructor raises \<open>FileNotFoundError\<close>. When the file's text is not empty after
  \<open>strip\<close>, the new store holds exactly one message, of role system, whose content is the
  stripped text between a label with the file's name and the delimiters. When the text is
  empty after \<open>strip\<close>, construction succeeds and the store holds no message.
\<close>

theorem seeding_from_file:
  "(fs p = Absent \<or> fs p = Directory \<longrightarrow>
      (\<exists>m. init_history n (Some p) fs = Inl (FileNotFoundError m)))
   \<and> (fs p = File t \<and> strip t \<noteq> [] \<longrightarrow>
      (\<exists>s. init_history n (Some p) fs = Inr s \<and> well_formed s \<and>
           history_view s =
             [\<lparr>role = ''system'',
               content = (''Initial context from history file ('' @ name p @ ''):'' @ newline
                          @ ''---'' @ newline) @ strip t @ (newline @ ''---'')\<rparr>]))
   \<and> (fs p = File t \<and> strip t = [] \<longrightarrow>
      (\<exists>s. init_history n (Some p) fs = Inr s \<and> well_formed s \<and> history_view s = []))"
proof (intro conjI impI)
  assume "fs p = Absent \<or> fs p = Directory"
  then show "\<exists>m. init_history n (Some p) fs = Inl (FileNotFoundError m)"
    by (auto simp: init_history_def load_from_file_cases)
next
  assume a: "fs p = File t \<and> strip t \<noteq> []"
  let ?c = "''Initial context from history file ('' @ name p @ ''):'' @ newline @ ''---'' @ newline @ strip t @ newline @ ''---''"
  from add_message_ok [where s = "empty_history n" and r = "''system''" and t = ?c]
    well_formed_empty_history [of n]
  obtain s' where "add_message ''system'' (PyStr ?c) (empty_history n) = (None, s')"
    "well_formed s'" "history_view s' = history_view (empty_history n) @ [\<lparr>role = ''system'', content = ?c\<rparr>]"
    by auto
  then show "\<exists>s. init_history n (Some p) fs = Inr s \<and> well_formed s \<and>
           history_view s =
             [\<lparr>role = ''system'',
               content = (''Initial context from history file ('' @ name p @ ''):'' @ newline
                          @ ''---'' @ newline) @ strip t @ (newline @ ''---'')\<rparr>]"
    using a by (simp add: init_history_def load_from_file_cases history_view_empty_history)
next
  assume "fs p = File t \<and> strip t = []"
  then show "\<exists>s. init_history n (Some p) fs = Inr s \<and> well_formed s \<and> history_view s = []"
    by (simp add: init_history_def load_from_file_cases well_formed_empty_history
        history_view_empty_history)
qed

theorem seeding_from_file_witness:
  "(\<exists>m. init_history 3 (Some seed_path) (\<lambda>p. Absent) = Inl (FileNotFoundError m))
   \<and> (\<exists>s. init_history 3 (Some seed_path) (\<lambda>p. File ''hello'') = Inr s \<and>
          history_view s = [\<lparr>role = ''system'',
             content = ''Initial context from history file (seed.txt):'' @ newline @ ''---'' @ newline @ ''hello'' @ newline @ ''---''\<rparr>])
   \<and> (\<exists>s. init_history 3 (Some seed_path) (\<lambda>p. File ''  '') = Inr s \<and> history_view s = [])"
  using seeding_from_file [where fs = "\<lambda>p. Absent" and p = seed_path and n = 3]
    seeding_from_file [where fs = "\<lambda>p. File ''hello''" and p = seed_path and n = 3 and t = "''hello''"]
    seeding_from_file [where fs = "\<lambda>p. File ''  ''" and p = seed_path and n = 3 and t = "''  ''"]
  by (auto simp: strip_def isspace_def whitespace_def seed_path_def)

section \<open>Takeaways\<close>

lemma map_nth_append_less:
  "\<forall>d\<in>set xs. d < length ds \<Longrightarrow> map (\<lambda>d. (ds @ es) ! d) xs = map (\<lambda>d. ds ! d) xs"
  by (simp add: nth_append)

lemma generate_takeaways_empty:
  assumes "well_formed s" and "history_view s = []"
  shows "fst (generate_takeaways run g s) = ''Error: Cannot generate takeaways from empty history.''"
    and "calls (snd (generate_takeaways run g s)) = calls s"
    and "history_view (snd (generate_takeaways run g s)) = history_view s"
    and "well_formed (snd (generate_takeaways run g s))"
    and "current_turn (snd (generate_takeaways run g s)) = current_turn s"
    and "max_iterations (snd (generate_takeaways run g s)) = max_iterations s"
    and "messages (snd (generate_takeaways run g s)) = messages s"
  using assms
  by (auto simp: generate_takeaways_def get_history_def new_list_def well_formed_def
      history_view_def value_at_def list_at_def dict_at_def nth_append)

lemma generate_takeaways_nonempty:
  fixes g :: string
  assumes "well_formed s" and "history_view s \<noteq> []"
  defines "inp \<equiv> history_view s @ [\<lparr>role = ''user'', content = takeaway_prompt g\<rparr>]"
  shows "fst (generate_takeaways run g s) =
           (case run ExpertAgent 0 inp of
              Raises e \<Rightarrow> ''Error generating takeaways: '' @ e
            | Returns r \<Rightarrow>
                (case stripped_output r of
                   Some t \<Rightarrow> t
                 | None \<Rightarrow> ''Error: Failed to generate valid takeaways from the LLM.''))"
    and "calls (snd (generate_takeaways run g s)) = calls s @ [(ExpertAgent, 0, inp)]"
    and "history_view (snd (generate_takeaways run g s)) = history_view s"
    and "well_formed (snd (generate_takeaways run g s))"
    and "current_turn (snd (generate_takeaways run g s)) = current_turn s"
    and "max_iterations (snd (generate_takeaways run g s)) = max_iterations s"
    and "messages (snd (generate_takeaways run g s)) = messages s"
  using assms
  by (auto simp: generate_takeaways_def get_history_def new_list_def new_dict_def Runner_run_def
      well_formed_def history_view_def value_at_def list_at_def dict_at_def [abs_def] nth_append
      list_all_iff less_Suc_eq map_nth_append_less
      split: run_outcome.splits option.splits)


lemma one_message_store_facts:
  "well_formed one_message_store"
  "history_view one_message_store = [\<lparr>role = ''user'', content = ''Q''\<rparr>]"
  "calls one_message_store = []"
  "current_turn one_message_store = 0"
  by (simp_all add: one_message_store_def add_message_def new_dict_def list_append_def
      empty_history_def well_formed_def history_view_def value_at_def list_at_def dict_at_def)

lemma empty_history_fields:
  "calls (empty_history n) = []" "current_turn (empty_history n) = 0"
  "max_iterations (empty_history n) = n"
  by (simp_all add: empty_history_def)

lemma error_flagged_literals:
  "error_flagged ''Error: Cannot generate takeaways from empty history.''"
  "error_flagged ''Error: Failed to generate valid takeaways from the LLM.''"
  by (simp_all add: error_flagged_def)

text \<open>
  C7, as the code has it. With an empty history \<open>generate_takeaways\<close> returns a string
  that starts with \<open>Error:\<close> and invokes nothing. With a non-empty history it invokes the
  expert agent exactly once, on the history followed by the one synthetic user message;
  when the result carries a string it returns that string stripped, be it empty, and when
  the result is falsy or carries something that is not a string it returns a string that
  starts with \<open>Error:\<close>.
\<close>

theorem generate_takeaways_contract:
  assumes "well_formed s"
  shows "(history_view s = [] \<longrightarrow>
            error_flagged (fst (generate_takeaways run g s)) \<and>
            calls (snd (generate_takeaways run g s)) = calls s)
       \<and> (history_view s \<noteq> [] \<longrightarrow>
            calls (snd (generate_takeaways run g s))
              = calls s @ [(ExpertAgent, 0,
                            history_view s @ [\<lparr>role = ''user'', content = takeaway_prompt g\<rparr>])] \<and>
            (\<forall>t. run ExpertAgent 0
                     (history_view s @ [\<lparr>role = ''user'', content = takeaway_prompt g\<rparr>])
                   = Returns (Some (PyStr t)) \<longrightarrow>
                 fst (generate_takeaways run g s) = strip t) \<and>
            (\<forall>r. run ExpertAgent 0
                     (history_view s @ [\<lparr>role = ''user'', content = takeaway_prompt g\<rparr>])
                   = Returns r \<and> (r = None \<or> (\<exists>v. r = Some v \<and> \<not> isinstance_str v)) \<longrightarrow>
                 error_flagged (fst (generate_takeaways run g s))))"
proof (intro conjI impI allI)
  assume e: "history_view s = []"
  show "error_flagged (fst (generate_takeaways run g s))"
    using generate_takeaways_empty(1) [OF assms e] error_flagged_literals by simp
  show "calls (snd (generate_takeaways run g s)) = calls s"
    using generate_takeaways_empty(2) [OF assms e] .
next
  assume ne: "history_view s \<noteq> []"
  show "calls (snd (generate_takeaways run g s))
          = calls s @ [(ExpertAgent, 0,
                        history_view s @ [\<lparr>role = ''user'', content = takeaway_prompt g\<rparr>])]"
    using generate_takeaways_nonempty(2) [OF assms ne] .
next
  fix t
  assume ne: "history_view s \<noteq> []"
    and r: "run ExpertAgent 0 (history_view s @ [\<lparr>role = ''user'', content = takeaway_prompt g\<rparr>])
              = Returns (Some (PyStr t))"
  show "fst (generate_takeaways run g s) = strip t"
    using generate_takeaways_nonempty(1) [OF assms ne, of run g] r by simp
next
  fix r
  assume ne: "history_view s \<noteq> []"
    and r: "run ExpertAgent 0 (history_view s @ [\<lparr>role = ''user'', content = takeaway_prompt g\<rparr>])
              = Returns r \<and> (r = None \<or> (\<exists>v. r = Some v \<and> \<not> isinstance_str v))"
  then have "stripped_output r = None"
    by (cases r; auto elim: isinstance_str.elims)
  then show "error_flagged (fst (generate_takeaways run g s))"
    using generate_takeaways_nonempty(1) [OF assms ne, of run g] r error_flagged_literals
    by simp
qed

theorem generate_takeaways_contract_witness:
  "error_flagged (fst (generate_takeaways (constant_runner (Returns (Some (PyStr ''ok''))))
                        ''goal'' (empty_history 1)))
   \<and> calls (snd (generate_takeaways (constant_runner (Returns (Some (PyStr ''ok''))))
                        ''goal'' (empty_history 1))) = []
   \<and> calls (snd (generate_takeaways (constant_runner (Returns (Some (PyStr '' - point '')))) ''goal''
                   one_message_store))
       = [(ExpertAgent, 0, [\<lparr>role = ''user'', content = ''Q''\<rparr>,
                            \<lparr>role = ''user'', content = takeaway_prompt ''goal''\<rparr>])]
   \<and> fst (generate_takeaways (constant_runner (Returns (Some (PyStr '' - point '')))) ''goal''
            one_message_store) = ''- point''
   \<and> error_flagged (fst (generate_takeaways (constant_runner (Returns (Some PyNone))) ''goal''
                           one_message_store))"
  using generate_takeaways_contract
          [where s = "empty_history 1" and g = "''goal''"
             and run = "constant_runner (Returns (Some (PyStr ''ok'')))"]
        generate_takeaways_contract
          [where s = one_message_store and g = "''goal''"
             and run = "constant_runner (Returns (Some (PyStr '' - point '')))"]
        generate_takeaways_contract
          [where s = one_message_store and g = "''goal''"
             and run = "constant_runner (Returns (Some PyNone))"]
  by (simp add: well_formed_empty_history history_view_empty_history one_message_store_facts
      constant_runner_def strip_def isspace_def whitespace_def empty_history_fields)

text \<open>
  C7 as stated fails when "unusable" takes in the empty and the whitespace-only reply, as
  it does in the loop: on the store holding user "Q", a reply \<open>" "\<close> or \<open>""\<close> is not usable,
  and \<open>generate_takeaways\<close> returns the empty string, which carries no error flag.
\<close>

theorem generate_takeaways_contract_counterexample:
  "\<not> usable (Returns (Some (PyStr '' '')))
   \<and> empty_or_non_string (Returns (Some (PyStr [])))
   \<and> fst (generate_takeaways (constant_runner (Returns (Some (PyStr '' '')))) ''goal''
            one_message_store) = []
   \<and> fst (generate_takeaways (constant_runner (Returns (Some (PyStr [])))) ''goal''
            one_message_store) = []
   \<and> \<not> error_flagged []"
  using generate_takeaways_nonempty(1)
          [where s = one_message_store and g = "''goal''"
             and run = "constant_runner (Returns (Some (PyStr '' '')))"]
        generate_takeaways_nonempty(1)
          [where s = one_message_store and g = "''goal''"
             and run = "constant_runner (Returns (Some (PyStr [])))"]
  by (simp add: one_message_store_facts constant_runner_def error_flagged_def strip_def
      isspace_def whitespace_def)

text \<open>
  When the invocation raises, the string returned carries the exception's message after
  \<open>Error generating takeaways:\<close>, which the engine's test does not take for a flag.
\<close>

lemma generate_takeaways_when_raising:
  assumes "well_formed s" and "history_view s \<noteq> []"
    and "run ExpertAgent 0 (history_view s @ [\<lparr>role = ''user'', content = takeaway_prompt g\<rparr>])
           = Raises e"
  shows "fst (generate_takeaways run g s) = ''Error generating takeaways: '' @ e"
    and "\<not> error_flagged (fst (generate_takeaways run g s))"
  using generate_takeaways_nonempty(1) [OF assms(1,2), of run g] assms(3)
  by (simp_all add: error_flagged_def)

text \<open>
  C9. \<open>generate_takeaways\<close> leaves the store as it was: the observed messages, the turn
  counter, the turn limit and the reference \<open>self.messages\<close> are the same afterwards,
  whatever the service answers.
\<close>

theorem generate_takeaways_preserves_store:
  assumes "well_formed s"
  shows "history_view (snd (generate_takeaways run g s)) = history_view s
       \<and> current_turn (snd (generate_takeaways run g s)) = current_turn s
       \<and> max_iterations (snd (generate_takeaways run g s)) = max_iterations s
       \<and> messages (snd (generate_takeaways run g s)) = messages s
       \<and> well_formed (snd (generate_takeaways run g s))"
proof (cases "history_view s = []")
  case True
  from generate_takeaways_empty [OF assms True, of run g] show ?thesis by simp
next
  case False
  from generate_takeaways_nonempty [OF assms False, of run g] show ?thesis by simp
qed

theorem generate_takeaways_preserves_store_witness:
  "history_view (snd (generate_takeaways (constant_runner (Returns (Some (PyStr ''summary''))))
                       ''goal'' one_message_store))
     = [\<lparr>role = ''user'', content = ''Q''\<rparr>]
   \<and> current_turn (snd (generate_takeaways (constant_runner (Returns (Some (PyStr ''summary''))))
                       ''goal'' one_message_store)) = 0
   \<and> history_view (snd (generate_takeaways (constant_runner (Raises ''timeout''))
                       ''goal'' one_message_store))
     = [\<lparr>role = ''user'', content = ''Q''\<rparr>]
   \<and> current_turn (snd (generate_takeaways (constant_runner (Raises ''timeout''))
                       ''goal'' one_message_store)) = 0"
  using generate_takeaways_preserves_store
          [where s = one_message_store and g = "''goal''"
             and run = "constant_runner (Returns (Some (PyStr ''summary'')))"]
        generate_takeaways_preserves_store
          [where s = one_message_store and g = "''goal''"
             and run = "constant_runner (Raises ''timeout'')"]
  by (simp add: one_message_store_facts)

section \<open>The transcript\<close>

lemma entries_nth_heading:
  "j < length ms \<Longrightarrow>
     concat (map (message_lines capitalize) (enumerate n ms)) ! (3 * j) = heading capitalize (n + j) (ms ! j)"
proof (induction ms arbitrary: n j)
  case Nil
  then show ?case by simp
next
  case (Cons m ms)
  show ?case
  proof (cases j)
    case 0
    then show ?thesis by (simp add: message_lines_def)
  next
    case (Suc k)
    with Cons.prems have "k < length ms" by simp
    from Cons.IH [OF this, of "Suc n"] Suc show ?thesis
      by (simp add: message_lines_def)
  qed
qed

lemma transcript_lines_heading:
  "j < length ms \<Longrightarrow> transcript_lines capitalize now t ms ! (3 + 3 * j) = heading capitalize (j + 1) (ms ! j)"
  using entries_nth_heading [where j = j and ms = ms and n = 1 and capitalize = capitalize]
  by (simp add: transcript_lines_def nth_append numeral_3_eq_3)





section \<open>One iteration of the loop\<close>

lemma user_agent_prompt_view:
  assumes "well_formed s" and "user_agent_prompt g s = (l, s1)"
  shows "well_formed s1" and "history_view s1 = history_view s"
    and "value_at s1 l = prompt_value g (history_view s)"
  using assms
  by (auto simp: user_agent_prompt_def prompt_value_def get_history_def new_list_def new_dict_def
      well_formed_def history_view_def value_at_def list_at_def dict_at_def [abs_def] nth_append
      list_all_iff less_Suc_eq map_nth_append_less split: if_splits)

lemma Runner_run_view:
  assumes "Runner_run run ag t l s = (r, s1)"
  shows "r = run ag t (value_at s l)" and "calls s1 = calls s @ [(ag, t, value_at s l)]"
    and "history_view s1 = history_view s" and "well_formed s \<Longrightarrow> well_formed s1"
  using assms
  by (auto simp: Runner_run_def well_formed_def history_view_def value_at_def list_at_def
      dict_at_def [abs_def])

lemma increment_turn_view:
  "history_view (increment_turn s) = history_view s"
  "well_formed (increment_turn s) = well_formed s"
  "current_turn (increment_turn s) = current_turn s + 1"
  "max_iterations (increment_turn s) = max_iterations s"
  "messages (increment_turn s) = messages s"
  "calls (increment_turn s) = calls s"
  by (simp_all add: increment_turn_def well_formed_def history_view_def value_at_def list_at_def
      dict_at_def [abs_def])

lemma expert_turn_effect:
  assumes wf: "well_formed s" and ex: "expert_turn run t s = (f, s')"
  shows "well_formed s' \<and> max_iterations s' = max_iterations s
       \<and> calls s' = calls s @ [(ExpertAgent, t, history_view s)]
       \<and> (case run ExpertAgent t (history_view s) of
             Raises e \<Rightarrow>
               f = Break \<and> history_view s' = history_view s \<and> current_turn s' = current_turn s
           | Returns r \<Rightarrow>
               (case stripped_output r of
                  None \<Rightarrow>
                    f = Break \<and> history_view s' = history_view s \<and> current_turn s' = current_turn s
                | Some a \<Rightarrow>
                    if a = []
                    then f = Break \<and> history_view s' = history_view s
                         \<and> current_turn s' = current_turn s
                    else f = Continue
                         \<and> history_view s' = history_view s @ [\<lparr>role = ''assistant'', content = a\<rparr>]
                         \<and> current_turn s' = current_turn s + 1))"
proof -
  obtain l s1 where g: "get_history s = (l, s1)" by (cases "get_history s")
  obtain r s2 where rr: "Runner_run run ExpertAgent t l s1 = (r, s2)"
    by (cases "Runner_run run ExpertAgent t l s1")
  note g1 = get_history_view [OF wf g] get_history_fields [OF g]
  note r2 = Runner_run_view [OF rr] Runner_run_fields [OF rr]
  have wf2: "well_formed s2" using r2 g1 by simp
  have v2: "history_view s2 = history_view s" using r2 g1 by simp
  have r: "r = run ExpertAgent t (history_view s)" using r2 g1 by simp
  have c2: "calls s2 = calls s @ [(ExpertAgent, t, history_view s)]" using r2 g1 by simp
  have f2: "max_iterations s2 = max_iterations s" "current_turn s2 = current_turn s"
    using r2 g1 by simp_all
  show ?thesis
  proof (cases r)
    case (Raises e)
    with ex g rr have "f = Break" "s' = s2" by (simp_all add: expert_turn_def)
    with Raises r wf2 v2 c2 f2 show ?thesis by simp
  next
    case (Returns out)
    show ?thesis
    proof (cases "stripped_output out")
      case None
      with Returns ex g rr have "f = Break" "s' = s2" by (simp_all add: expert_turn_def)
      with None Returns r wf2 v2 c2 f2 show ?thesis by simp
    next
      case (Some a)
      show ?thesis
      proof (cases "a = []")
        case True
        with Some Returns ex g rr have "f = Break" "s' = s2" by (simp_all add: expert_turn_def)
        with True Some Returns r wf2 v2 c2 f2 show ?thesis by simp
      next
        case False
        from add_message_ok [OF wf2, of "''assistant''" a] obtain s3 where
          a3: "add_message ''assistant'' (PyStr a) s2 = (None, s3)" "well_formed s3"
              "history_view s3 = history_view s2 @ [\<lparr>role = ''assistant'', content = a\<rparr>]"
              "current_turn s3 = current_turn s2" "max_iterations s3 = max_iterations s2"
              "calls s3 = calls s2"
          by auto
        with False Some Returns ex g rr have "f = Continue" "s' = increment_turn s3"
          by (simp_all add: expert_turn_def)
        with a3 False Some Returns r wf2 v2 c2 f2 show ?thesis
          by (simp add: increment_turn_view)
      qed
    qed
  qed
qed


lemma loop_body_effect:
  assumes wf: "well_formed s" and lb: "loop_body run g s = (f, s')"
  shows "well_formed s' \<and> max_iterations s' = max_iterations s
       \<and> (case run UserAgent (current_turn s + 1) (prompt_value g (history_view s)) of
             Raises e \<Rightarrow>
               f = Break \<and> history_view s' = history_view s \<and> current_turn s' = current_turn s
               \<and> calls s' = calls s @ [(UserAgent, current_turn s + 1,
                                          prompt_value g (history_view s))]
           | Returns r \<Rightarrow>
               (case stripped_output r of
                  None \<Rightarrow>
                    f = Continue \<and> history_view s' = history_view s
                    \<and> current_turn s' = current_turn s + 1
                    \<and> calls s' = calls s @ [(UserAgent, current_turn s + 1,
                                               prompt_value g (history_view s))]
                | Some q \<Rightarrow>
                    if q = []
                    then f = Continue \<and> history_view s' = history_view s
                         \<and> current_turn s' = current_turn s + 1
                         \<and> calls s' = calls s @ [(UserAgent, current_turn s + 1,
                                                    prompt_value g (history_view s))]
                    else calls s' = calls s @
                           [(UserAgent, current_turn s + 1, prompt_value g (history_view s)),
                            (ExpertAgent, current_turn s + 1,
                             history_view s @ [\<lparr>role = ''user'', content = q\<rparr>])]
                         \<and> (case run ExpertAgent (current_turn s + 1)
                                     (history_view s @ [\<lparr>role = ''user'', content = q\<rparr>]) of
                               Raises e \<Rightarrow>
                                 f = Break \<and> current_turn s' = current_turn s
                                 \<and> history_view s' = history_view s @ [\<lparr>role = ''user'', content = q\<rparr>]
                             | Returns r' \<Rightarrow>
                                 (case stripped_output r' of
                                    None \<Rightarrow>
                                      f = Break \<and> current_turn s' = current_turn s
                                      \<and> history_view s'
                                          = history_view s @ [\<lparr>role = ''user'', content = q\<rparr>]
                                  | Some a \<Rightarrow>
                                      if a = []
                                      then f = Break \<and> current_turn s' = current_turn s
                                           \<and> history_view s'
                                               = history_view s @ [\<lparr>role = ''user'', content = q\<rparr>]
                                      else f = Continue \<and> current_turn s' = current_turn s + 1
                                           \<and> history_view s'
                                               = history_view s @
                                                 [\<lparr>role = ''user'', content = q\<rparr>,
                                                  \<lparr>role = ''assistant'', content = a\<rparr>]))))"
proof -
  let ?t = "current_turn s + 1" and ?inp = "prompt_value g (history_view s)"
  obtain l s1 where p: "user_agent_prompt g s = (l, s1)" by (cases "user_agent_prompt g s")
  obtain r s2 where rr: "Runner_run run UserAgent ?t l s1 = (r, s2)"
    by (cases "Runner_run run UserAgent ?t l s1")
  note p1 = user_agent_prompt_view [OF wf p] user_agent_prompt_fields [OF p]
  note r2 = Runner_run_view [OF rr] Runner_run_fields [OF rr]
  have wf2: "well_formed s2" using r2 p1 by simp
  have v2: "history_view s2 = history_view s" using r2 p1 by simp
  have r: "r = run UserAgent ?t ?inp" using r2 p1 by simp
  have c2: "calls s2 = calls s @ [(UserAgent, ?t, ?inp)]" using r2 p1 by simp
  have f2: "max_iterations s2 = max_iterations s" "current_turn s2 = current_turn s"
    using r2 p1 by simp_all
  show ?thesis
  proof (cases r)
    case (Raises e)
    with lb p rr have "f = Break" "s' = s2" by (simp_all add: loop_body_def)
    with Raises r wf2 v2 c2 f2 show ?thesis by simp
  next
    case (Returns out)
    show ?thesis
    proof (cases "stripped_output out")
      case None
      with Returns lb p rr have "f = Continue" "s' = increment_turn s2"
        by (simp_all add: loop_body_def)
      with None Returns r wf2 v2 c2 f2 show ?thesis by (simp add: increment_turn_view)
    next
      case (Some q)
      show ?thesis
      proof (cases "q = []")
        case True
        with Some Returns lb p rr have "f = Continue" "s' = increment_turn s2"
          by (simp_all add: loop_body_def)
        with True Some Returns r wf2 v2 c2 f2 show ?thesis by (simp add: increment_turn_view)
      next
        case False
        from add_message_ok [OF wf2, of "''user''" q] obtain s3 where
          a3: "add_message ''user'' (PyStr q) s2 = (None, s3)" "well_formed s3"
              "history_view s3 = history_view s2 @ [\<lparr>role = ''user'', content = q\<rparr>]"
              "current_turn s3 = current_turn s2" "max_iterations s3 = max_iterations s2"
              "calls s3 = calls s2"
          by auto
        with False Some Returns lb p rr have e: "expert_turn run ?t s3 = (f, s')"
          by (simp add: loop_body_def)
        from expert_turn_effect [OF a3(2) e] a3 False Some Returns r v2 c2 f2
        show ?thesis by (simp split: run_outcome.splits option.splits if_splits)
      qed
    qed
  qed
qed


section \<open>Runs of the loop\<close>

lemma usable_stripped:
  "usable out \<Longrightarrow> \<exists>r q. out = Returns r \<and> stripped_output r = Some q \<and> q \<noteq> []"
  by (induction out rule: usable.induct) auto

lemma empty_or_non_string_stripped:
  "empty_or_non_string out \<Longrightarrow>
     \<exists>r. out = Returns r \<and> (stripped_output r = None \<or> stripped_output r = Some [])"
  by (induction out rule: empty_or_non_string.induct) (auto simp: strip_def)

lemma empty_or_non_string_not_usable:
  "empty_or_non_string out \<Longrightarrow> \<not> raises out \<and> \<not> usable out"
  by (induction out rule: empty_or_non_string.induct) (auto simp: strip_def)

lemma not_usable_stripped:
  "\<not> raises out \<Longrightarrow> \<not> usable out \<Longrightarrow>
     \<exists>r. out = Returns r \<and> (stripped_output r = None \<or> stripped_output r = Some [])"
  by (induction out rule: usable.induct) auto

lemma raises_not_usable: "raises out \<Longrightarrow> \<not> usable out"
  by (cases out) auto

lemma nonempty_text_returns: "nonempty_text out \<Longrightarrow> \<exists>r. out = Returns r"
  by (induction out rule: nonempty_text.induct) auto

lemma raises_Raises: "raises out \<Longrightarrow> \<exists>e. out = Raises e"
  by (cases out) auto

text \<open>A full exchange: both agents give a usable reply.\<close>

lemma loop_body_exchange:
  assumes "well_formed s"
    and "\<forall>ag inp. usable (run ag (current_turn s + 1) inp)"
  shows "\<exists>s' q a. loop_body run g s = (Continue, s') \<and> well_formed s'
           \<and> max_iterations s' = max_iterations s \<and> current_turn s' = current_turn s + 1
           \<and> history_view s' = history_view s @ [\<lparr>role = ''user'', content = q\<rparr>,
                                                  \<lparr>role = ''assistant'', content = a\<rparr>]"
proof -
  obtain f s' where lb: "loop_body run g s = (f, s')" by (cases "loop_body run g s")
  let ?t = "current_turn s + 1"
  from assms(2) usable_stripped obtain r q where
    q: "run UserAgent ?t (prompt_value g (history_view s)) = Returns r"
       "stripped_output r = Some q" "q \<noteq> []"
    by blast
  from assms(2) usable_stripped obtain r' a where
    a: "run ExpertAgent ?t (history_view s @ [\<lparr>role = ''user'', content = q\<rparr>]) = Returns r'"
       "stripped_output r' = Some a" "a \<noteq> []"
    by blast
  from loop_body_effect [OF assms(1) lb] q a lb show ?thesis by simp
qed

text \<open>Any iteration in which the user agent does not raise and the expert agent is usable.\<close>

lemma loop_body_progress:
  assumes "well_formed s"
    and "\<forall>inp. \<not> raises (run UserAgent (current_turn s + 1) inp)"
    and "\<forall>inp. usable (run ExpertAgent (current_turn s + 1) inp)"
  shows "\<exists>s'. loop_body run g s = (Continue, s') \<and> well_formed s'
           \<and> max_iterations s' = max_iterations s \<and> current_turn s' = current_turn s + 1"
proof -
  obtain f s' where lb: "loop_body run g s = (f, s')" by (cases "loop_body run g s")
  let ?t = "current_turn s + 1"
  from assms(2) obtain r where
    r: "run UserAgent ?t (prompt_value g (history_view s)) = Returns r"
    by (metis raises.simps(1) run_outcome.exhaust)
  have "f = Continue \<and> current_turn s' = current_turn s + 1"
  proof (cases "stripped_output r")
    case None
    with loop_body_effect [OF assms(1) lb] r show ?thesis by simp
  next
    case (Some q)
    show ?thesis
    proof (cases "q = []")
      case True
      with Some loop_body_effect [OF assms(1) lb] r show ?thesis by simp
    next
      case False
      from assms(3) usable_stripped obtain r' a where
        a: "run ExpertAgent ?t (history_view s @ [\<lparr>role = ''user'', content = q\<rparr>]) = Returns r'"
           "stripped_output r' = Some a" "a \<noteq> []"
        by blast
      with False Some loop_body_effect [OF assms(1) lb] r show ?thesis by simp
    qed
  qed
  with loop_body_effect [OF assms(1) lb] lb show ?thesis by simp
qed

text \<open>A soft failure: the user agent returns, and its reply is not usable.\<close>

lemma loop_body_soft_failure:
  assumes "well_formed s"
    and "\<forall>inp. \<not> raises (run UserAgent (current_turn s + 1) inp)
               \<and> \<not> usable (run UserAgent (current_turn s + 1) inp)"
  shows "\<exists>s'. loop_body run g s = (Continue, s') \<and> well_formed s'
           \<and> max_iterations s' = max_iterations s \<and> current_turn s' = current_turn s + 1
           \<and> history_view s' = history_view s
           \<and> calls s' = calls s @ [(UserAgent, current_turn s + 1,
                                      prompt_value g (history_view s))]"
proof -
  obtain f s' where lb: "loop_body run g s = (f, s')" by (cases "loop_body run g s")
  from assms(2) not_usable_stripped obtain r where
    "run UserAgent (current_turn s + 1) (prompt_value g (history_view s)) = Returns r"
    "stripped_output r = None \<or> stripped_output r = Some []"
    by blast
  with loop_body_effect [OF assms(1) lb] lb show ?thesis by auto
qed

text \<open>The expert agent fails (it raises, or its reply is not usable) after a usable question.\<close>

lemma loop_body_expert_fails:
  assumes "well_formed s"
    and "\<forall>inp. usable (run UserAgent (current_turn s + 1) inp)"
    and "\<forall>inp. \<not> usable (run ExpertAgent (current_turn s + 1) inp)"
  shows "\<exists>s' q. loop_body run g s = (Break, s') \<and> well_formed s'
           \<and> max_iterations s' = max_iterations s \<and> current_turn s' = current_turn s
           \<and> history_view s' = history_view s @ [\<lparr>role = ''user'', content = q\<rparr>]"
proof -
  obtain f s' where lb: "loop_body run g s = (f, s')" by (cases "loop_body run g s")
  let ?t = "current_turn s + 1"
  from assms(2) usable_stripped obtain r q where
    q: "run UserAgent ?t (prompt_value g (history_view s)) = Returns r"
       "stripped_output r = Some q" "q \<noteq> []"
    by blast
  let ?out = "run ExpertAgent ?t (history_view s @ [\<lparr>role = ''user'', content = q\<rparr>])"
  from assms(3) have nu: "\<not> usable ?out" by simp
  show ?thesis
  proof (cases "raises ?out")
    case True
    then obtain e where "?out = Raises e" using raises_Raises by blast
    with loop_body_effect [OF assms(1) lb] q lb show ?thesis by simp
  next
    case False
    with nu not_usable_stripped obtain r' where
      "?out = Returns r'" "stripped_output r' = None \<or> stripped_output r' = Some []"
      by blast
    with loop_body_effect [OF assms(1) lb] q lb show ?thesis by auto
  qed
qed

lemma iterations_add:
  "iterations n run g s = (None, s') \<Longrightarrow> iterations (n + m) run g s = iterations m run g s'"
proof (induction n arbitrary: s)
  case 0
  then show ?case by simp
next
  case (Suc n)
  then show ?case
    by (auto split: if_splits prod.splits flow.splits)
qed

lemma iterations_loop:
  "iterations n run g s = (None, s') \<Longrightarrow>
     conversation_loop run g s = conversation_loop run g s'"
  "iterations n run g s = (Some e, s') \<Longrightarrow> conversation_loop run g s = (e, s')"
proof (induction n arbitrary: s)
  case 0
  { case 1 then show ?case by simp }
  { case 2 then show ?case by simp }
next
  case (Suc n)
  { case 1
    then show ?case
      using Suc.IH(1) by (subst conversation_loop.simps) (auto split: if_splits prod.splits flow.splits) }
  { case 2
    then show ?case
      using Suc.IH(2) by (subst conversation_loop.simps) (auto split: if_splits prod.splits flow.splits) }
qed

lemma conversation_loop_complete:
  "max_iterations s \<le> current_turn s \<Longrightarrow> conversation_loop run g s = (Completed, s)"
  by (simp add: conversation_loop.simps is_complete_def)

lemma iterations_exchanges:
  assumes "well_formed s" and "current_turn s + int n \<le> max_iterations s"
    and "\<forall>ag t inp. current_turn s < t \<and> t \<le> current_turn s + int n \<longrightarrow> usable (run ag t inp)"
  shows "\<exists>s' new. iterations n run g s = (None, s') \<and> well_formed s'
           \<and> max_iterations s' = max_iterations s \<and> current_turn s' = current_turn s + int n
           \<and> history_view s' = history_view s @ new
           \<and> map role new = concat (replicate n [''user'', ''assistant''])"
  using assms
proof (induction n arbitrary: s)
  case 0
  then show ?case by simp
next
  case (Suc n)
  from Suc.prems(3) have "\<forall>ag inp. usable (run ag (current_turn s + 1) inp)" by simp
  with loop_body_exchange [where run = run and g = g and s = s] Suc.prems(1) obtain s1 q a where
    s1: "loop_body run g s = (Continue, s1)" "well_formed s1"
        "max_iterations s1 = max_iterations s" "current_turn s1 = current_turn s + 1"
        "history_view s1 = history_view s @ [\<lparr>role = ''user'', content = q\<rparr>,
                                              \<lparr>role = ''assistant'', content = a\<rparr>]"
    by blast
  have "current_turn s1 + int n \<le> max_iterations s1" using s1 Suc.prems(2) by simp
  moreover have "\<forall>ag t inp. current_turn s1 < t \<and> t \<le> current_turn s1 + int n
                   \<longrightarrow> usable (run ag t inp)"
    using s1 Suc.prems(3) by auto
  ultimately obtain s' new where
    s': "iterations n run g s1 = (None, s')" "well_formed s'"
        "max_iterations s' = max_iterations s1" "current_turn s' = current_turn s1 + int n"
        "history_view s' = history_view s1 @ new"
        "map role new = concat (replicate n [''user'', ''assistant''])"
    using Suc.IH [OF s1(2)] by blast
  have "\<not> is_complete s" using Suc.prems(2) by (simp add: is_complete_def)
  with s1 s' have 1: "iterations (Suc n) run g s = (None, s')" by simp
  let ?new = "[\<lparr>role = ''user'', content = q\<rparr>, \<lparr>role = ''assistant'', content = a\<rparr>] @ new"
  have 2: "history_view s' = history_view s @ ?new"
    using s1 s' by simp
  have 3: "map role ?new = concat (replicate (Suc n) [''user'', ''assistant''])"
    using s' by simp
  have 4: "max_iterations s' = max_iterations s" "current_turn s' = current_turn s + int (Suc n)"
    using s1 s' by simp_all
  show ?case
    apply (rule exI [of _ s'])
    apply (rule exI [of _ ?new])
    using 1 2 3 4 s'(2) apply blast
    done
qed


lemma iterations_progress:
  assumes "well_formed s" and "current_turn s + int n \<le> max_iterations s"
    and "\<forall>t inp. current_turn s < t \<and> t \<le> current_turn s + int n \<longrightarrow>
           \<not> raises (run UserAgent t inp) \<and> usable (run ExpertAgent t inp)"
  shows "\<exists>s'. iterations n run g s = (None, s') \<and> well_formed s'
           \<and> max_iterations s' = max_iterations s \<and> current_turn s' = current_turn s + int n"
  using assms
proof (induction n arbitrary: s)
  case 0
  then show ?case by simp
next
  case (Suc n)
  from Suc.prems(3) have "\<forall>inp. \<not> raises (run UserAgent (current_turn s + 1) inp)"
    and "\<forall>inp. usable (run ExpertAgent (current_turn s + 1) inp)" by simp_all
  with loop_body_progress [where run = run and g = g and s = s] Suc.prems(1) obtain s1 where
    s1: "loop_body run g s = (Continue, s1)" "well_formed s1"
        "max_iterations s1 = max_iterations s" "current_turn s1 = current_turn s + 1"
    by blast
  have "current_turn s1 + int n \<le> max_iterations s1" using s1 Suc.prems(2) by simp
  moreover have "\<forall>t inp. current_turn s1 < t \<and> t \<le> current_turn s1 + int n \<longrightarrow>
           \<not> raises (run UserAgent t inp) \<and> usable (run ExpertAgent t inp)"
    using s1 Suc.prems(3) by auto
  ultimately obtain s' where
    s': "iterations n run g s1 = (None, s')" "well_formed s'"
        "max_iterations s' = max_iterations s1" "current_turn s' = current_turn s1 + int n"
    using Suc.IH [OF s1(2)] by blast
  have "\<not> is_complete s" using Suc.prems(2) by (simp add: is_complete_def)
  with s1 s' have "iterations (Suc n) run g s = (None, s')" by simp
  moreover have "max_iterations s' = max_iterations s"
    "current_turn s' = current_turn s + int (Suc n)"
    using s1 s' by simp_all
  ultimately show ?case using s'(2) by blast
qed

lemma count_role_alternating:
  assumes "map role new = concat (replicate n [''user'', ''assistant''])"
  shows "count_role ''user'' new = n" and "count_role ''assistant'' new = n"
proof -
  have c: "\<And>r. count_role r new = length (filter (\<lambda>x. x = r) (map role new))"
    by (simp add: count_role_def filter_map comp_def)
  have "length (filter (\<lambda>x. x = ''user'') (concat (replicate n [''user'', ''assistant'']))) = n"
    by (induction n) simp_all
  moreover
  have "length (filter (\<lambda>x. x = ''assistant'') (concat (replicate n [''user'', ''assistant'']))) = n"
    by (induction n) simp_all
  ultimately show "count_role ''user'' new = n" and "count_role ''assistant'' new = n"
    using assms c by simp_all
qed

lemma count_role_append:
  "count_role r (xs @ ys) = count_role r xs + count_role r ys"
  by (simp add: count_role_def)

text \<open>
  C1, as the code has it. When every invocation returns a string that is not empty once
  stripped, the loop started at turn 0 with limit \<open>N\<close> is left by its condition, the turn
  counter is \<open>N\<close>, and the history has grown by \<open>N\<close> question and answer pairs: \<open>2 N\<close>
  messages whose roles alternate user, assistant, so \<open>N\<close> of each.
\<close>

theorem all_usable_completes:
  assumes "well_formed s" and "current_turn s = 0" and "max_iterations s = int N"
    and "\<forall>ag t inp. usable (run ag t inp)"
  shows "\<exists>sf new. conversation_loop run g s = (Completed, sf) \<and> current_turn sf = int N
           \<and> history_view sf = history_view s @ new
           \<and> map role new = concat (replicate N [''user'', ''assistant''])
           \<and> count_role ''user'' new = N \<and> count_role ''assistant'' new = N"
proof -
  from assms have "current_turn s + int N \<le> max_iterations s"
    and "\<forall>ag t inp. current_turn s < t \<and> t \<le> current_turn s + int N \<longrightarrow> usable (run ag t inp)"
    by simp_all
  from iterations_exchanges [OF assms(1) this, of g] obtain sf new where
    sf: "iterations N run g s = (None, sf)" "max_iterations sf = max_iterations s"
        "current_turn sf = current_turn s + int N" "history_view sf = history_view s @ new"
        "map role new = concat (replicate N [''user'', ''assistant''])"
    by blast
  have "conversation_loop run g sf = (Completed, sf)"
    using sf assms by (simp add: conversation_loop_complete)
  with iterations_loop(1) [OF sf(1)] have "conversation_loop run g s = (Completed, sf)" by simp
  with sf assms count_role_alternating [OF sf(5)] show ?thesis by auto
qed

section \<open>Runs with the example services\<close>

lemma strip_nonempty: "\<not> isspace c \<Longrightarrow> strip (c # cs) \<noteq> []"
  by (simp add: strip_def dropWhile_eq_Nil_conv)

lemma strip_empty: "strip [] = []"
  by (simp add: strip_def)

lemma strip_blank: "strip '' '' = []"
  by (simp add: strip_def isspace_def whitespace_def)

lemma usable_scripted: "usable (scripted_runner ag t inp)"
  by (cases ag) (simp_all add: scripted_runner_def strip_nonempty isspace_def whitespace_def)

lemma nonempty_text_scripted: "nonempty_text (scripted_runner ag t inp)"
  by (cases ag) (simp_all add: scripted_runner_def)

text \<open>
  The run of two turns with the scripted service: questions \<open>Q1\<close>, \<open>Q2\<close> and answers
  \<open>A1\<close>, \<open>A2\<close>.
\<close>

lemma scripted_replies:
  "scripted_runner UserAgent 1 inp = Returns (Some (PyStr ''Q1''))"
  "scripted_runner ExpertAgent 1 inp = Returns (Some (PyStr ''A1''))"
  "scripted_runner UserAgent 2 inp = Returns (Some (PyStr ''Q2''))"
  "scripted_runner ExpertAgent 2 inp = Returns (Some (PyStr ''A2''))"
  "strip ''Q1'' = ''Q1''" "strip ''A1'' = ''A1''" "strip ''Q2'' = ''Q2''" "strip ''A2'' = ''A2''"
  by (simp_all add: scripted_runner_def str_nat.simps digits_def strip_def isspace_def
      whitespace_def)

lemma scripted_two_turns:
  "\<exists>sf. conversation_loop scripted_runner g (empty_history 2) = (Completed, sf)
        \<and> current_turn sf = 2
        \<and> history_view sf = [\<lparr>role = ''user'', content = ''Q1''\<rparr>,
                              \<lparr>role = ''assistant'', content = ''A1''\<rparr>,
                              \<lparr>role = ''user'', content = ''Q2''\<rparr>,
                              \<lparr>role = ''assistant'', content = ''A2''\<rparr>]"
proof -
  let ?s = "empty_history 2"
  obtain f1 s1 where b1: "loop_body scripted_runner g ?s = (f1, s1)"
    by (cases "loop_body scripted_runner g ?s")
  from loop_body_effect [OF well_formed_empty_history b1]
  have s1: "f1 = Continue" "well_formed s1" "max_iterations s1 = 2" "current_turn s1 = 1"
    "history_view s1 = [\<lparr>role = ''user'', content = ''Q1''\<rparr>,
                        \<lparr>role = ''assistant'', content = ''A1''\<rparr>]"
    by (simp_all add: empty_history_fields history_view_empty_history scripted_replies)
  obtain f2 s2 where b2: "loop_body scripted_runner g s1 = (f2, s2)"
    by (cases "loop_body scripted_runner g s1")
  from loop_body_effect [OF s1(2) b2]
  have s2: "f2 = Continue" "max_iterations s2 = 2" "current_turn s2 = 2"
    "history_view s2 = [\<lparr>role = ''user'', content = ''Q1''\<rparr>,
                        \<lparr>role = ''assistant'', content = ''A1''\<rparr>,
                        \<lparr>role = ''user'', content = ''Q2''\<rparr>,
                        \<lparr>role = ''assistant'', content = ''A2''\<rparr>]"
    by (simp_all add: s1 scripted_replies prompt_value_def)
  have "\<not> is_complete ?s" and "\<not> is_complete s1"
    using s1 by (simp_all add: is_complete_def empty_history_fields)
  then have "conversation_loop scripted_runner g ?s = conversation_loop scripted_runner g s2"
    using b1 b2 s1(1) s2(1)
    by (simp add: conversation_loop.simps [of _ _ ?s] conversation_loop.simps [of _ _ s1])
  also have "\<dots> = (Completed, s2)" using s2 by (simp add: conversation_loop_complete)
  finally show ?thesis using s2 by simp
qed

theorem all_usable_completes_witness:
  "\<exists>sf. conversation_loop scripted_runner ''goal'' (empty_history 2) = (Completed, sf)
      \<and> current_turn sf = 2
      \<and> history_view sf = [\<lparr>role = ''user'', content = ''Q1''\<rparr>,
                            \<lparr>role = ''assistant'', content = ''A1''\<rparr>,
                            \<lparr>role = ''user'', content = ''Q2''\<rparr>,
                            \<lparr>role = ''assistant'', content = ''A2''\<rparr>]
      \<and> count_role ''user'' (history_view sf) = 2
      \<and> count_role ''assistant'' (history_view sf) = 2"
  using all_usable_completes [where s = "empty_history 2" and N = 2 and run = scripted_runner
                                and g = "''goal''"]
    scripted_two_turns [of "''goal''"]
  by (auto simp: well_formed_empty_history empty_history_fields history_view_empty_history
      usable_scripted)

lemma iterations_one:
  assumes "\<not> is_complete s"
  shows "loop_body run g s = (Continue, s') \<Longrightarrow> iterations 1 run g s = (None, s')"
    and "loop_body run g s = (Break, s') \<Longrightarrow> iterations 1 run g s = (Some Aborted, s')"
  using assms by simp_all

text \<open>
  A reply that is a non-empty string of whitespace is stripped to the empty string. With a
  service that always gives it, the user agent's half of every turn is a soft failure.
\<close>

lemma blank_run:
  "\<exists>sf. conversation_loop (constant_runner (Returns (Some (PyStr '' '')))) g (empty_history 1)
          = (Completed, sf) \<and> history_view sf = [] \<and> current_turn sf = 1"
proof -
  let ?run = "constant_runner (Returns (Some (PyStr '' '')))"
  let ?s = "empty_history 1"
  have "\<forall>inp. \<not> raises (?run UserAgent (current_turn ?s + 1) inp)
              \<and> \<not> usable (?run UserAgent (current_turn ?s + 1) inp)"
    by (simp add: constant_runner_def strip_blank)
  with loop_body_soft_failure [where run = ?run and g = g and s = ?s]
    well_formed_empty_history [of 1] obtain s1 where
    s1: "loop_body ?run g ?s = (Continue, s1)" "max_iterations s1 = max_iterations ?s"
        "current_turn s1 = current_turn ?s + 1" "history_view s1 = history_view ?s"
    by blast
  have "\<not> is_complete ?s" by (simp add: is_complete_def empty_history_fields)
  from iterations_loop(1) [OF iterations_one(1) [OF this s1(1)]]
  have "conversation_loop ?run g ?s = conversation_loop ?run g s1" .
  also have "\<dots> = (Completed, s1)"
    using s1 by (simp add: conversation_loop_complete empty_history_fields)
  finally show ?thesis
    using s1 by (simp add: empty_history_fields history_view_empty_history)
qed

text \<open>
  C1 as stated fails: the limit is 1 and every invocation succeeds with the non-empty
  string \<open>" "\<close>; the loop is completed, and the history holds no message at all.
\<close>

theorem all_usable_completes_counterexample:
  "nonempty_text (Returns (Some (PyStr '' '')))
   \<and> fst (conversation_loop (constant_runner (Returns (Some (PyStr '' '')))) ''goal''
            (empty_history 1)) = Completed
   \<and> history_view (snd (conversation_loop (constant_runner (Returns (Some (PyStr '' ''))))
                          ''goal'' (empty_history 1))) = []"
  using blank_run [of "''goal''"] by auto

text \<open>
  C3, as the code has it. Let the replies of both agents be usable on the turns before
  \<open>k\<close>, the user agent's reply be usable on turn \<open>k\<close>, and the expert agent raise on turn
  \<open>k\<close>. Then the loop is left by \<open>break\<close>, no exception leaves it, the turn counter is
  \<open>k - 1\<close>, and the history has grown by \<open>k - 1\<close> question and answer pairs followed by the
  \<open>k\<close>-th question, which is its last message: \<open>k\<close> user and \<open>k - 1\<close> assistant messages.
\<close>

theorem expert_failure_aborts:
  assumes "well_formed s" and "current_turn s = 0" and "max_iterations s = int N"
    and "1 \<le> k" and "k \<le> N"
    and "\<forall>ag t inp. 1 \<le> t \<and> t < int k \<longrightarrow> usable (run ag t inp)"
    and "\<forall>inp. usable (run UserAgent (int k) inp)"
    and "\<forall>inp. raises (run ExpertAgent (int k) inp)"
  shows "\<exists>sf new q. conversation_loop run g s = (Aborted, sf) \<and> current_turn sf = int k - 1
           \<and> history_view sf = history_view s @ new @ [\<lparr>role = ''user'', content = q\<rparr>]
           \<and> map role new = concat (replicate (k - 1) [''user'', ''assistant''])
           \<and> count_role ''user'' (new @ [\<lparr>role = ''user'', content = q\<rparr>]) = k
           \<and> count_role ''assistant'' (new @ [\<lparr>role = ''user'', content = q\<rparr>]) = k - 1
           \<and> last (history_view sf) = \<lparr>role = ''user'', content = q\<rparr>"
proof -
  from assms have "current_turn s + int (k - 1) \<le> max_iterations s"
    and "\<forall>ag t inp. current_turn s < t \<and> t \<le> current_turn s + int (k - 1)
           \<longrightarrow> usable (run ag t inp)"
    by auto
  from iterations_exchanges [OF assms(1) this, of g] obtain s1 new where
    s1: "iterations (k - 1) run g s = (None, s1)" "well_formed s1"
        "max_iterations s1 = max_iterations s" "current_turn s1 = current_turn s + int (k - 1)"
        "history_view s1 = history_view s @ new"
        "map role new = concat (replicate (k - 1) [''user'', ''assistant''])"
    by blast
  have t1: "current_turn s1 + 1 = int k" using s1 assms by simp
  have "\<forall>inp. usable (run UserAgent (current_turn s1 + 1) inp)"
    and "\<forall>inp. \<not> usable (run ExpertAgent (current_turn s1 + 1) inp)"
    using assms(7,8) raises_not_usable by (simp_all add: t1)
  with loop_body_expert_fails [where run = run and g = g and s = s1] s1(2) obtain s2 q where
    s2: "loop_body run g s1 = (Break, s2)" "current_turn s2 = current_turn s1"
        "history_view s2 = history_view s1 @ [\<lparr>role = ''user'', content = q\<rparr>]"
    by blast
  have "\<not> is_complete s1" using s1 assms by (simp add: is_complete_def)
  from iterations_one(2) [OF this s2(1)] iterations_add [OF s1(1), of 1]
  have "iterations (k - 1 + 1) run g s = (Some Aborted, s2)" by simp
  from iterations_loop(2) [OF this] have 1: "conversation_loop run g s = (Aborted, s2)" .
  have 2: "current_turn s2 = int k - 1" using s2 t1 by simp
  have 3: "history_view s2 = history_view s @ new @ [\<lparr>role = ''user'', content = q\<rparr>]"
    using s1 s2 by simp
  have 4: "count_role ''user'' (new @ [\<lparr>role = ''user'', content = q\<rparr>]) = k"
    "count_role ''assistant'' (new @ [\<lparr>role = ''user'', content = q\<rparr>]) = k - 1"
    using count_role_alternating [OF s1(6)] assms(4)
    by (simp_all add: count_role_append) (simp_all add: count_role_def)
  have 5: "last (history_view s2) = \<lparr>role = ''user'', content = q\<rparr>" using 3 by simp
  show ?thesis
    apply (rule exI [of _ s2])
    apply (rule exI [of _ new])
    apply (rule exI [of _ q])
    using 1 2 3 4 5 s1(6) apply blast
    done
qed


theorem expert_failure_aborts_witness:
  "\<exists>sf new q. conversation_loop (override ExpertAgent 2 (Raises ''unavailable'') scripted_runner)
                  ''goal'' (empty_history 2) = (Aborted, sf)
      \<and> current_turn sf = 1
      \<and> history_view sf = new @ [\<lparr>role = ''user'', content = q\<rparr>]
      \<and> map role new = [''user'', ''assistant'']
      \<and> count_role ''user'' (new @ [\<lparr>role = ''user'', content = q\<rparr>]) = 2
      \<and> count_role ''assistant'' (new @ [\<lparr>role = ''user'', content = q\<rparr>]) = 1
      \<and> last (history_view sf) = \<lparr>role = ''user'', content = q\<rparr>"
  using expert_failure_aborts [where s = "empty_history 2" and N = 2 and k = 2 and g = "''goal''"
          and run = "override ExpertAgent 2 (Raises ''unavailable'') scripted_runner"]
  by (simp add: well_formed_empty_history empty_history_fields history_view_empty_history
      usable_scripted override_def)

text \<open>
  A turn whose question is unusable, followed by a turn on which the expert agent fails,
  with limit 2 and an empty history at the start.
\<close>

lemma soft_failure_then_expert_failure:
  assumes "\<forall>inp. \<not> raises (run UserAgent 1 inp) \<and> \<not> usable (run UserAgent 1 inp)"
    and "\<forall>inp. usable (run UserAgent 2 inp)"
    and "\<forall>inp. \<not> usable (run ExpertAgent 2 inp)"
  shows "\<exists>sf q. conversation_loop run g (empty_history 2) = (Aborted, sf)
           \<and> current_turn sf = 1 \<and> history_view sf = [\<lparr>role = ''user'', content = q\<rparr>]"
proof -
  let ?s = "empty_history 2"
  have "\<forall>inp. \<not> raises (run UserAgent (current_turn ?s + 1) inp)
              \<and> \<not> usable (run UserAgent (current_turn ?s + 1) inp)"
    using assms(1) by (simp add: empty_history_fields)
  with loop_body_soft_failure [where run = run and g = g and s = ?s]
    well_formed_empty_history [of 2] obtain s1 where
    s1: "loop_body run g ?s = (Continue, s1)" "well_formed s1"
        "max_iterations s1 = max_iterations ?s"
        "current_turn s1 = current_turn ?s + 1" "history_view s1 = history_view ?s"
    by blast
  have t1: "current_turn s1 = 1" "max_iterations s1 = 2"
    using s1 by (simp_all add: empty_history_fields)
  have "\<forall>inp. usable (run UserAgent (current_turn s1 + 1) inp)"
    and "\<forall>inp. \<not> usable (run ExpertAgent (current_turn s1 + 1) inp)"
    using assms(2,3) t1 by simp_all
  with loop_body_expert_fails [where run = run and g = g and s = s1] s1(2) obtain s2 q where
    s2: "loop_body run g s1 = (Break, s2)" "current_turn s2 = current_turn s1"
        "history_view s2 = history_view s1 @ [\<lparr>role = ''user'', content = q\<rparr>]"
    by blast
  have "\<not> is_complete ?s" by (simp add: is_complete_def empty_history_fields)
  from iterations_one(1) [OF this s1(1)] have i1: "iterations 1 run g ?s = (None, s1)" .
  have "\<not> is_complete s1" using t1 by (simp add: is_complete_def)
  from iterations_one(2) [OF this s2(1)] iterations_add [OF i1, of 1]
  have "iterations (1 + 1) run g ?s = (Some Aborted, s2)" by simp
  from iterations_loop(2) [OF this] have "conversation_loop run g ?s = (Aborted, s2)" .
  moreover have "history_view s2 = [\<lparr>role = ''user'', content = q\<rparr>]"
    using s1 s2 by (simp add: history_view_empty_history)
  ultimately show ?thesis using s2 t1 by simp
qed

text \<open>
  C3 as stated fails: the limit is 2, the user agent succeeds on turn 1 with the non-empty
  string \<open>" "\<close>, and the expert agent raises on turn 2. The loop is aborted with one user
  message and no assistant message, not two and one.
\<close>

theorem expert_failure_aborts_counterexample:
  "nonempty_text (blank_question_then_raise UserAgent 1 [])
   \<and> raises (blank_question_then_raise ExpertAgent 2 [])
   \<and> fst (conversation_loop blank_question_then_raise ''goal'' (empty_history 2)) = Aborted
   \<and> count_role ''user''
        (history_view (snd (conversation_loop blank_question_then_raise ''goal''
                              (empty_history 2)))) = 1
   \<and> count_role ''assistant''
        (history_view (snd (conversation_loop blank_question_then_raise ''goal''
                              (empty_history 2)))) = 0"
proof -
  have "\<forall>inp. \<not> raises (blank_question_then_raise UserAgent 1 inp)
              \<and> \<not> usable (blank_question_then_raise UserAgent 1 inp)"
    and "\<forall>inp. usable (blank_question_then_raise UserAgent 2 inp)"
    and "\<forall>inp. \<not> usable (blank_question_then_raise ExpertAgent 2 inp)"
    by (simp_all add: blank_question_then_raise_def override_def strip_blank usable_scripted)
  from soft_failure_then_expert_failure [OF this, of "''goal''"] obtain sf q where
    "conversation_loop blank_question_then_raise ''goal'' (empty_history 2) = (Aborted, sf)"
    "history_view sf = [\<lparr>role = ''user'', content = q\<rparr>]"
    by blast
  then show ?thesis
    by (simp add: count_role_def blank_question_then_raise_def override_def)
qed


text \<open>Every invocation made in an iteration carries the number of its turn.\<close>

lemma loop_body_calls:
  assumes "well_formed s" and "loop_body run g s = (f, s')"
  shows "\<exists>cs. calls s' = calls s @ cs \<and> list_all (\<lambda>c. fst (snd c) = current_turn s + 1) cs"
proof -
  note e = loop_body_effect [OF assms]
  show ?thesis
  proof (cases "run UserAgent (current_turn s + 1) (prompt_value g (history_view s))")
    case (Raises x)
    with e show ?thesis by simp
  next
    case (Returns r)
    show ?thesis
    proof (cases "stripped_output r")
      case None
      with Returns e show ?thesis by simp
    next
      case (Some q)
      show ?thesis
      proof (cases "q = []")
        case True
        with Some Returns e show ?thesis by simp
      next
        case False
        with Some Returns e show ?thesis by simp
      qed
    qed
  qed
qed

lemma iterations_calls:
  assumes "well_formed s" and "iterations n run g s = (None, s')"
  shows "\<exists>cs. calls s' = calls s @ cs
           \<and> list_all (\<lambda>c. current_turn s < fst (snd c) \<and> fst (snd c) \<le> current_turn s') cs
           \<and> current_turn s \<le> current_turn s'"
  using assms
proof (induction n arbitrary: s)
  case 0
  then show ?case by simp
next
  case (Suc n)
  from Suc.prems(2) obtain s1 where
    s1: "loop_body run g s = (Continue, s1)" "iterations n run g s1 = (None, s')"
    by (auto split: if_splits prod.splits flow.splits)
  from loop_body_effect [OF Suc.prems(1) s1(1)] loop_body_Continue [OF s1(1)]
  have w1: "well_formed s1" and t1: "current_turn s1 = current_turn s + 1" by simp_all
  from loop_body_calls [OF Suc.prems(1) s1(1)] obtain cs1 where
    cs1: "calls s1 = calls s @ cs1" "list_all (\<lambda>c. fst (snd c) = current_turn s + 1) cs1"
    by blast
  from Suc.IH [OF w1 s1(2)] obtain cs2 where
    cs2: "calls s' = calls s1 @ cs2"
         "list_all (\<lambda>c. current_turn s1 < fst (snd c) \<and> fst (snd c) \<le> current_turn s') cs2"
         "current_turn s1 \<le> current_turn s'"
    by blast
  have "calls s' = calls s @ (cs1 @ cs2)" using cs1 cs2 by simp
  moreover have "list_all (\<lambda>c. current_turn s < fst (snd c) \<and> fst (snd c) \<le> current_turn s')
                   (cs1 @ cs2)"
    using cs1(2) cs2(2,3) t1 by (auto simp: list_all_iff)
  moreover have "current_turn s \<le> current_turn s'" using cs2(3) t1 by simp
  ultimately show ?case by blast
qed

text \<open>
  C4, as the code has it. Let the user agent return an empty or non-string reply on turn
  \<open>k\<close> and a non-empty string on every other turn, and let the expert agent return,
  whenever it is invoked, a string that is not empty once stripped. Then the loop is left
  by its condition with the turn counter at \<open>N\<close>; the \<open>k\<close>-th iteration leaves the history
  as it found it and invokes the user agent only; and among the invocations of the whole
  run there is none of the expert agent on turn \<open>k\<close>.
\<close>

theorem soft_failure_still_completes:
  assumes "well_formed s" and "current_turn s = 0" and "max_iterations s = int N"
    and "1 \<le> k" and "k \<le> N"
    and "\<forall>inp. empty_or_non_string (run UserAgent (int k) inp)"
    and "\<forall>t inp. t \<noteq> int k \<longrightarrow> nonempty_text (run UserAgent t inp)"
    and "\<forall>t inp. usable (run ExpertAgent t inp)"
  shows "\<exists>sf s1 s2 cs. conversation_loop run g s = (Completed, sf) \<and> current_turn sf = int N
           \<and> iterations (k - 1) run g s = (None, s1) \<and> current_turn s1 = int k - 1
           \<and> iterations k run g s = (None, s2) \<and> current_turn s2 = int k
           \<and> history_view s2 = history_view s1
           \<and> calls s2 = calls s1 @ [(UserAgent, int k, prompt_value g (history_view s1))]
           \<and> calls sf = calls s @ cs
           \<and> list_all (\<lambda>c. \<not> (fst c = ExpertAgent \<and> fst (snd c) = int k)) cs"
proof -
  have nr: "\<And>t inp. \<not> raises (run UserAgent t inp)"
  proof -
    fix t inp
    show "\<not> raises (run UserAgent t inp)"
    proof (cases "t = int k")
      case True
      with assms(6) empty_or_non_string_not_usable show ?thesis by blast
    next
      case False
      with assms(7) nonempty_text_returns have "\<exists>r. run UserAgent t inp = Returns r" by blast
      then show ?thesis by auto
    qed
  qed
  have pr: "\<And>c n. \<forall>t inp. c < t \<and> t \<le> c + int n \<longrightarrow>
              \<not> raises (run UserAgent t inp) \<and> usable (run ExpertAgent t inp)"
    using nr assms(8) by simp
  have "current_turn s + int (k - 1) \<le> max_iterations s" using assms by simp
  from iterations_progress [OF assms(1) this pr, of g] obtain s1 where
    s1: "iterations (k - 1) run g s = (None, s1)" "well_formed s1"
        "max_iterations s1 = max_iterations s" "current_turn s1 = current_turn s + int (k - 1)"
    by blast
  have t1: "current_turn s1 + 1 = int k" using s1 assms by simp
  have "\<forall>inp. \<not> raises (run UserAgent (current_turn s1 + 1) inp)
              \<and> \<not> usable (run UserAgent (current_turn s1 + 1) inp)"
    using assms(6) empty_or_non_string_not_usable by (simp add: t1)
  with loop_body_soft_failure [where run = run and g = g and s = s1] s1(2) obtain s2 where
    s2: "loop_body run g s1 = (Continue, s2)" "well_formed s2"
        "max_iterations s2 = max_iterations s1" "current_turn s2 = current_turn s1 + 1"
        "history_view s2 = history_view s1"
        "calls s2 = calls s1 @ [(UserAgent, current_turn s1 + 1,
                                 prompt_value g (history_view s1))]"
    by blast
  have "\<not> is_complete s1" using s1 assms by (simp add: is_complete_def)
  from iterations_one(1) [OF this s2(1)] iterations_add [OF s1(1), of 1] assms(4)
  have i2: "iterations k run g s = (None, s2)" by simp
  have "current_turn s2 + int (N - k) \<le> max_iterations s2" using s1 s2 t1 assms by simp
  from iterations_progress [OF s2(2) this pr, of g] obtain sf where
    sf: "iterations (N - k) run g s2 = (None, sf)" "well_formed sf"
        "max_iterations sf = max_iterations s2" "current_turn sf = current_turn s2 + int (N - k)"
    by blast
  have tf: "current_turn sf = int N" using sf s2 t1 assms by simp
  have "conversation_loop run g sf = (Completed, sf)"
    using tf sf s2 s1 assms by (simp add: conversation_loop_complete)
  with iterations_loop(1) [OF i2] iterations_loop(1) [OF sf(1)]
  have 1: "conversation_loop run g s = (Completed, sf)" by simp
  from iterations_calls [OF assms(1) s1(1)] obtain cs1 where
    cs1: "calls s1 = calls s @ cs1"
         "list_all (\<lambda>c. current_turn s < fst (snd c) \<and> fst (snd c) \<le> current_turn s1) cs1"
    by blast
  from iterations_calls [OF s2(2) sf(1)] obtain cs2 where
    cs2: "calls sf = calls s2 @ cs2"
         "list_all (\<lambda>c. current_turn s2 < fst (snd c) \<and> fst (snd c) \<le> current_turn sf) cs2"
    by blast
  let ?cs = "cs1 @ [(UserAgent, int k, prompt_value g (history_view s1))] @ cs2"
  have 2: "calls sf = calls s @ ?cs" using cs1 cs2 s2(6) t1 by simp
  have 3: "list_all (\<lambda>c. \<not> (fst c = ExpertAgent \<and> fst (snd c) = int k)) ?cs"
    using cs1(2) cs2(2) s2(4) t1 by (auto simp: list_all_iff)
  have 4: "current_turn s1 = int k - 1" "current_turn s2 = int k" using t1 s2 by simp_all
  have 5: "calls s2 = calls s1 @ [(UserAgent, int k, prompt_value g (history_view s1))]"
    using s2(6) t1 by simp
  show ?thesis
    apply (rule exI [of _ sf])
    apply (rule exI [of _ s1])
    apply (rule exI [of _ s2])
    apply (rule exI [of _ ?cs])
    using 1 tf s1(1) i2 4 s2(5) 5 2 3 apply blast
    done
qed


theorem soft_failure_still_completes_witness:
  "\<exists>sf s1 s2 cs.
      conversation_loop (override UserAgent 1 (Returns (Some (PyStr []))) scripted_runner)
        ''goal'' (empty_history 2) = (Completed, sf)
      \<and> current_turn sf = 2
      \<and> iterations 0 (override UserAgent 1 (Returns (Some (PyStr []))) scripted_runner)
           ''goal'' (empty_history 2) = (None, s1)
      \<and> current_turn s1 = 0
      \<and> iterations 1 (override UserAgent 1 (Returns (Some (PyStr []))) scripted_runner)
           ''goal'' (empty_history 2) = (None, s2)
      \<and> current_turn s2 = 1
      \<and> history_view s2 = history_view s1
      \<and> calls s2 = calls s1 @ [(UserAgent, 1, prompt_value ''goal'' (history_view s1))]
      \<and> calls sf = cs
      \<and> list_all (\<lambda>c. \<not> (fst c = ExpertAgent \<and> fst (snd c) = 1)) cs"
  using soft_failure_still_completes [where s = "empty_history 2" and N = 2 and k = 1
          and g = "''goal''"
          and run = "override UserAgent 1 (Returns (Some (PyStr []))) scripted_runner"]
  by (simp add: well_formed_empty_history empty_history_fields usable_scripted
      nonempty_text_scripted override_def)

text \<open>
  C4 as stated fails: the limit is 2, the user agent returns the empty string on turn 1 and
  a non-empty string on turn 2, and the expert agent succeeds with the non-empty string
  \<open>" "\<close>. The loop is aborted on turn 2 with the turn counter at 1.
\<close>

theorem soft_failure_still_completes_counterexample:
  "empty_or_non_string (empty_question_blank_answer UserAgent 1 [])
   \<and> nonempty_text (empty_question_blank_answer UserAgent 2 [])
   \<and> nonempty_text (empty_question_blank_answer ExpertAgent 2 [])
   \<and> fst (conversation_loop empty_question_blank_answer ''goal'' (empty_history 2)) = Aborted
   \<and> current_turn (snd (conversation_loop empty_question_blank_answer ''goal''
                           (empty_history 2))) = 1"
proof -
  have "\<forall>inp. \<not> raises (empty_question_blank_answer UserAgent 1 inp)
              \<and> \<not> usable (empty_question_blank_answer UserAgent 1 inp)"
    and "\<forall>inp. usable (empty_question_blank_answer UserAgent 2 inp)"
    and "\<forall>inp. \<not> usable (empty_question_blank_answer ExpertAgent 2 inp)"
    by (simp_all add: empty_question_blank_answer_def override_def strip_blank usable_scripted
        strip_empty)
  from soft_failure_then_expert_failure [OF this, of "''goal''"] obtain sf where
    "conversation_loop empty_question_blank_answer ''goal'' (empty_history 2) = (Aborted, sf)"
    "current_turn sf = 1"
    by blast
  then show ?thesis
    by (simp add: empty_question_blank_answer_def override_def nonempty_text_scripted)
qed

section \<open>What the store holds after a run\<close>

lemma dialogue_append:
  "dialogue h \<Longrightarrow> dialogue (h @ [\<lparr>role = ''user'', content = q\<rparr>])"
  "dialogue h \<Longrightarrow> dialogue (h @ [\<lparr>role = ''user'', content = q\<rparr>,
                                    \<lparr>role = ''assistant'', content = a\<rparr>])"
  by (cases h; simp add: dialogue_def)+

lemma loop_body_dialogue:
  assumes "well_formed s" and "loop_body run g s = (f, s')" and "dialogue (history_view s)"
  shows "dialogue (history_view s')" and "f = Continue \<or> f = Break"
proof -
  note e = loop_body_effect [OF assms(1,2)]
  have "dialogue (history_view s') \<and> (f = Continue \<or> f = Break)"
  proof (cases "run UserAgent (current_turn s + 1) (prompt_value g (history_view s))")
    case (Raises x)
    with e assms(3) show ?thesis by simp
  next
    case (Returns r)
    show ?thesis
    proof (cases "stripped_output r")
      case None
      with Returns e assms(3) show ?thesis by simp
    next
      case (Some q)
      show ?thesis
      proof (cases "q = []")
        case True
        with Some Returns e assms(3) show ?thesis by simp
      next
        case False
        let ?h = "history_view s @ [\<lparr>role = ''user'', content = q\<rparr>]"
        show ?thesis
        proof (cases "run ExpertAgent (current_turn s + 1) ?h")
          case (Raises x)
          with False Some Returns e dialogue_append(1) [OF assms(3)] show ?thesis by simp
        next
          case R2: (Returns r')
          show ?thesis
          proof (cases "stripped_output r'")
            case None
            with R2 False Some Returns e dialogue_append(1) [OF assms(3)] show ?thesis by simp
          next
            case S2: (Some a)
            show ?thesis
            proof (cases "a = []")
              case True
              with S2 R2 False Some Returns e dialogue_append(1) [OF assms(3)]
              show ?thesis by simp
            next
              case F2: False
              with S2 R2 False Some Returns e dialogue_append(2) [OF assms(3)]
              show ?thesis by simp
            qed
          qed
        qed
      qed
    qed
  qed
  then show "dialogue (history_view s')" and "f = Continue \<or> f = Break" by simp_all
qed

lemma conversation_loop_dialogue:
  "well_formed s \<Longrightarrow> dialogue (history_view s) \<Longrightarrow> conversation_loop run g s = (ex, sf) \<Longrightarrow>
     well_formed sf \<and> dialogue (history_view sf) \<and> (ex = Completed \<or> ex = Aborted)
     \<and> (\<exists>cs. calls sf = calls s @ cs)"
proof (induction run g s rule: conversation_loop.induct)
  case (1 run g s)
  show ?case
  proof (cases "is_complete s")
    case True
    with "1.prems" show ?thesis by (simp add: conversation_loop.simps)
  next
    case False
    obtain f s' where lb: "loop_body run g s = (f, s')" by (cases "loop_body run g s")
    note e = loop_body_effect [OF "1.prems"(1) lb]
    note d = loop_body_dialogue [OF "1.prems"(1) lb "1.prems"(2)]
    from loop_body_calls [OF "1.prems"(1) lb] obtain cs1 where
      cs1: "calls s' = calls s @ cs1" by blast
    from d(2) show ?thesis
    proof
      assume c: "f = Continue"
      with False lb "1.prems"(3) have "conversation_loop run g s' = (ex, sf)"
        by (simp add: conversation_loop.simps [of run g s])
      from "1.IH" [OF False lb [symmetric] c _ d(1) this] e cs1 show ?thesis by auto
    next
      assume b: "f = Break"
      with False lb "1.prems"(3) have "ex = Aborted" "sf = s'"
        by (simp_all add: conversation_loop.simps [of run g s])
      with e d(1) cs1 show ?thesis by simp
    qed
  qed
qed


lemma format_conversation_store:
  assumes "well_formed s"
  shows "fst (format_conversation capitalize now s)
           = (if history_view s = [] then ''No conversation history available.''
              else join newline (transcript_lines capitalize now (current_turn s) (history_view s)))"
    and "well_formed (snd (format_conversation capitalize now s))"
    and "history_view (snd (format_conversation capitalize now s)) = history_view s"
    and "current_turn (snd (format_conversation capitalize now s)) = current_turn s"
    and "calls (snd (format_conversation capitalize now s)) = calls s"
  using assms
  by (auto simp: format_conversation_def get_history_def new_list_def well_formed_def
      history_view_def value_at_def list_at_def dict_at_def [abs_def] nth_append)

lemma dialogue_heading:
  assumes "dialogue h" and "j < length h"
  shows "heading capitalize (j + 1) (h ! j)
           = ''## '' @ (if role (h ! j) = ''user'' then ''User'' else ''Expert'')
             @ '' (Turn '' @ str_nat ((j + 2) div 2) @ '')''"
proof -
  from assms have "role (h ! j) = ''user'' \<or> role (h ! j) = ''assistant''"
    by (auto simp: dialogue_def list_all_length)
  then show ?thesis
    by (auto simp: heading_def display_turn_def role_title_def)
qed

lemma dialogue_no_system:
  "dialogue h \<Longrightarrow> list_all (\<lambda>m. role m \<noteq> ''system'') h"
  by (auto simp: dialogue_def list_all_iff)

lemma dialogue_first:
  "dialogue h \<Longrightarrow> h \<noteq> [] \<Longrightarrow> role (hd h) = ''user''"
  by (cases h) (auto simp: dialogue_def)

lemma conversation_loop_first_call:
  assumes "well_formed s" and "\<not> is_complete s" and "dialogue (history_view s)"
    and "conversation_loop run g s = (ex, sf)"
  shows "\<exists>cs. calls sf = calls s @ (UserAgent, current_turn s + 1,
                                      prompt_value g (history_view s)) # cs"
proof -
  obtain f s' where lb: "loop_body run g s = (f, s')" by (cases "loop_body run g s")
  note e = loop_body_effect [OF assms(1) lb]
  note d = loop_body_dialogue [OF assms(1) lb assms(3)]
  have c1: "\<exists>cs. calls s' = calls s @ (UserAgent, current_turn s + 1,
                                        prompt_value g (history_view s)) # cs"
  proof (cases "run UserAgent (current_turn s + 1) (prompt_value g (history_view s))")
    case (Raises x)
    with e show ?thesis by simp
  next
    case (Returns r)
    show ?thesis
    proof (cases "stripped_output r")
      case None
      with Returns e show ?thesis by simp
    next
      case (Some q)
      show ?thesis
      proof (cases "q = []")
        case True
        with Some Returns e show ?thesis by simp
      next
        case False
        with Some Returns e show ?thesis by simp
      qed
    qed
  qed
  from d(2) show ?thesis
  proof
    assume "f = Continue"
    with assms(2,4) lb have "conversation_loop run g s' = (ex, sf)"
      by (simp add: conversation_loop.simps [of run g s])
    from conversation_loop_dialogue [OF _ d(1) this] e obtain cs2 where
      "calls sf = calls s' @ cs2" by blast
    with c1 show ?thesis by auto
  next
    assume "f = Break"
    with assms(2,4) lb have "sf = s'" by (simp add: conversation_loop.simps [of run g s])
    with c1 show ?thesis by simp
  qed
qed


lemma generate_takeaways_frame:
  assumes "well_formed s"
  shows "history_view (snd (generate_takeaways run g s)) = history_view s"
    and "current_turn (snd (generate_takeaways run g s)) = current_turn s"
    and "well_formed (snd (generate_takeaways run g s))"
    and "\<exists>cs. calls (snd (generate_takeaways run g s)) = calls s @ cs"
proof -
  have "history_view (snd (generate_takeaways run g s)) = history_view s
      \<and> current_turn (snd (generate_takeaways run g s)) = current_turn s
      \<and> well_formed (snd (generate_takeaways run g s))
      \<and> (\<exists>cs. calls (snd (generate_takeaways run g s)) = calls s @ cs)"
  proof (cases "history_view s = []")
    case True
    from generate_takeaways_empty [OF assms True, of run g] show ?thesis by simp
  next
    case False
    from generate_takeaways_nonempty [OF assms False, of run g] show ?thesis by simp
  qed
  then show "history_view (snd (generate_takeaways run g s)) = history_view s"
    and "current_turn (snd (generate_takeaways run g s)) = current_turn s"
    and "well_formed (snd (generate_takeaways run g s))"
    and "\<exists>cs. calls (snd (generate_takeaways run g s)) = calls s @ cs"
    by simp_all
qed

lemma run_conversation_result:
  assumes "well_formed s" and "dialogue (history_view s)"
    and "conversation_loop run g s = (ex, s1)"
  shows "fst (fst (run_conversation capitalize run g now w s)) = ex"
    and "fst (snd (fst (run_conversation capitalize run g now w s)))
           = (if w then Some (fst (format_conversation capitalize now s1)) else None)"
    and "history_view (snd (run_conversation capitalize run g now w s)) = history_view s1"
    and "current_turn (snd (run_conversation capitalize run g now w s)) = current_turn s1"
    and "\<exists>cs. calls (snd (run_conversation capitalize run g now w s)) = calls s1 @ cs"
proof -
  from conversation_loop_dialogue [OF assms] have
    w1: "well_formed s1" and how: "ex = Completed \<or> ex = Aborted" by simp_all
  obtain transcript s2 where f: "format_conversation capitalize now s1 = (transcript, s2)"
    by (cases "format_conversation capitalize now s1")
  from format_conversation_store [OF w1, where capitalize = capitalize and now = now] f have
    s2: "well_formed s2" "history_view s2 = history_view s1" "current_turn s2 = current_turn s1"
        "calls s2 = calls s1"
    by simp_all
  obtain tk s3 where t: "generate_takeaways run g s2 = (tk, s3)"
    by (cases "generate_takeaways run g s2")
  from generate_takeaways_frame [OF s2(1), of run g] t have
    s3: "history_view s3 = history_view s2" "current_turn s3 = current_turn s2"
        "\<exists>cs. calls s3 = calls s2 @ cs"
    by simp_all
  have r: "run_conversation capitalize run g now w s
             = (if w then ((ex, Some transcript, if error_flagged tk then None else Some tk), s3)
                else ((ex, None, None), s2))"
    using how assms(3) f t by (auto simp: run_conversation_def)
  show "fst (fst (run_conversation capitalize run g now w s)) = ex" using r by simp
  show "fst (snd (fst (run_conversation capitalize run g now w s)))
           = (if w then Some (fst (format_conversation capitalize now s1)) else None)"
    using r f by simp
  show "history_view (snd (run_conversation capitalize run g now w s)) = history_view s1"
    using r s2 s3 by simp
  show "current_turn (snd (run_conversation capitalize run g now w s)) = current_turn s1"
    using r s2 s3 by simp
  show "\<exists>cs. calls (snd (run_conversation capitalize run g now w s)) = calls s1 @ cs"
    using r s2 s3 by auto
qed

text \<open>
  C10. Start \<open>run_conversation\<close> with a store that holds no message. Whatever the service
  answers, the history afterwards holds no system message and, when it holds anything,
  starts with a user message; the text handed to the transcript file is the formatting of
  that history, every heading of which is a \<open>User\<close> or an \<open>Expert\<close> heading. When the loop
  is entered at all, the first invocation of the run is the user agent's, on the one
  system message that states the goal: that message is given to the agent and not stored.
\<close>

theorem bootstrap_message_not_stored:
  assumes "well_formed s" and "history_view s = []"
  shows "list_all (\<lambda>m. role m \<noteq> ''system'') (history_view (snd (run_conversation capitalize run g now w s)))
       \<and> (history_view (snd (run_conversation capitalize run g now w s)) \<noteq> [] \<longrightarrow>
            role (hd (history_view (snd (run_conversation capitalize run g now w s)))) = ''user'')
       \<and> (w \<longrightarrow> fst (snd (fst (run_conversation capitalize run g now w s)))
              = Some (if history_view (snd (run_conversation capitalize run g now w s)) = []
                      then ''No conversation history available.''
                      else join newline
                             (transcript_lines capitalize now
                                (current_turn (snd (run_conversation capitalize run g now w s)))
                                (history_view (snd (run_conversation capitalize run g now w s))))))
       \<and> (\<forall>j < length (history_view (snd (run_conversation capitalize run g now w s))).
             transcript_lines capitalize now (current_turn (snd (run_conversation capitalize run g now w s)))
                 (history_view (snd (run_conversation capitalize run g now w s))) ! (3 + 3 * j)
               = ''## '' @ (if role (history_view (snd (run_conversation capitalize run g now w s)) ! j)
                               = ''user''
                            then ''User'' else ''Expert'')
                 @ '' (Turn '' @ str_nat ((j + 2) div 2) @ '')'')
       \<and> (\<not> is_complete s \<longrightarrow>
            (\<exists>cs. calls (snd (run_conversation capitalize run g now w s))
                    = calls s @ (UserAgent, current_turn s + 1,
                                 [\<lparr>role = ''system'',
                                   content = ''The conversation goal is: '' @ g\<rparr>]) # cs))"
proof -
  let ?R = "run_conversation capitalize run g now w s"
  obtain ex s1 where l: "conversation_loop run g s = (ex, s1)"
    by (cases "conversation_loop run g s")
  have d0: "dialogue (history_view s)" using assms(2) by (simp add: dialogue_def)
  from conversation_loop_dialogue [OF assms(1) d0 l] have
    w1: "well_formed s1" and d1: "dialogue (history_view s1)" by simp_all
  note r = run_conversation_result [OF assms(1) d0 l, where capitalize = capitalize
             and now = now and w = w]
  have d: "dialogue (history_view (snd ?R))" using r(3) d1 by simp
  have 1: "list_all (\<lambda>m. role m \<noteq> ''system'') (history_view (snd ?R))"
    using dialogue_no_system [OF d] .
  have 2: "history_view (snd ?R) \<noteq> [] \<longrightarrow> role (hd (history_view (snd ?R))) = ''user''"
    using dialogue_first [OF d] by simp
  have 3: "w \<longrightarrow> fst (snd (fst ?R))
              = Some (if history_view (snd ?R) = []
                      then ''No conversation history available.''
                      else join newline
                             (transcript_lines capitalize now (current_turn (snd ?R))
                                (history_view (snd ?R))))"
  proof
    assume w
    with r(2) have "fst (snd (fst ?R)) = Some (fst (format_conversation capitalize now s1))" by simp
    with r(3,4) format_conversation_store(1) [OF w1, where capitalize = capitalize and now = now]
    show "fst (snd (fst ?R))
              = Some (if history_view (snd ?R) = []
                      then ''No conversation history available.''
                      else join newline
                             (transcript_lines capitalize now (current_turn (snd ?R))
                                (history_view (snd ?R))))"
      by simp
  qed
  have 4: "\<forall>j < length (history_view (snd ?R)).
             transcript_lines capitalize now (current_turn (snd ?R)) (history_view (snd ?R)) ! (3 + 3 * j)
               = ''## '' @ (if role (history_view (snd ?R) ! j) = ''user''
                            then ''User'' else ''Expert'')
                 @ '' (Turn '' @ str_nat ((j + 2) div 2) @ '')''"
    using transcript_lines_heading dialogue_heading [OF d] by simp
  have 5: "\<not> is_complete s \<longrightarrow>
            (\<exists>cs. calls (snd ?R)
                    = calls s @ (UserAgent, current_turn s + 1,
                                 [\<lparr>role = ''system'',
                                   content = ''The conversation goal is: '' @ g\<rparr>]) # cs)"
  proof
    assume "\<not> is_complete s"
    from conversation_loop_first_call [OF assms(1) this d0 l] obtain cs1 where
      "calls s1 = calls s @ (UserAgent, current_turn s + 1,
                             prompt_value g (history_view s)) # cs1"
      by blast
    moreover from r(5) obtain cs2 where "calls (snd ?R) = calls s1 @ cs2" by blast
    ultimately show "\<exists>cs. calls (snd ?R)
                    = calls s @ (UserAgent, current_turn s + 1,
                                 [\<lparr>role = ''system'',
                                   content = ''The conversation goal is: '' @ g\<rparr>]) # cs"
      using assms(2) by (simp add: prompt_value_def)
  qed
  from 1 2 3 4 5 show ?thesis by blast
qed


lemma example_run_roles:
  "map role (history_view (snd example_run)) = [''user'', ''assistant'']"
  "current_turn (snd example_run) = 1"
proof -
  let ?s = "empty_history 1"
  have "current_turn ?s + int 1 \<le> max_iterations ?s"
    and "\<forall>ag t inp. current_turn ?s < t \<and> t \<le> current_turn ?s + int 1
           \<longrightarrow> usable (scripted_runner ag t inp)"
    by (simp_all add: empty_history_fields usable_scripted)
  from iterations_exchanges [OF well_formed_empty_history this, of "''goal''"] obtain s1 new
    where s1: "iterations 1 scripted_runner ''goal'' ?s = (None, s1)"
          "max_iterations s1 = max_iterations ?s" "current_turn s1 = current_turn ?s + int 1"
          "history_view s1 = history_view ?s @ new"
          "map role new = concat (replicate 1 [''user'', ''assistant''])"
    by blast
  have "conversation_loop scripted_runner ''goal'' s1 = (Completed, s1)"
    using s1 by (simp add: conversation_loop_complete empty_history_fields)
  with iterations_loop(1) [OF s1(1)]
  have l: "conversation_loop scripted_runner ''goal'' ?s = (Completed, s1)" by simp
  have d0: "dialogue (history_view ?s)"
    by (simp add: dialogue_def history_view_empty_history)
  note r = run_conversation_result [OF well_formed_empty_history d0 l,
             where capitalize = "\<lambda>r. r" and now = "''2025-01-01 10:00:00''" and w = True]
  show "map role (history_view (snd example_run)) = [''user'', ''assistant'']"
    using r(3) s1 by (simp add: example_run_def history_view_empty_history)
  show "current_turn (snd example_run) = 1"
    using r(4) s1 by (simp add: example_run_def empty_history_fields)
qed

lemma two_roles:
  assumes "map role h = [''user'', ''assistant'']"
  shows "length h = 2" and "h \<noteq> []" and "role (h ! 0) = ''user''"
    and "role (h ! 1) = ''assistant''" and "role (hd h) = ''user''"
proof -
  from assms obtain a b where h: "h = [a, b]" by (auto simp: map_eq_Cons_conv)
  with assms show "length h = 2" and "h \<noteq> []" and "role (h ! 0) = ''user''"
    and "role (h ! 1) = ''assistant''" and "role (hd h) = ''user''"
    by simp_all
qed

theorem bootstrap_message_not_stored_witness:
  "list_all (\<lambda>m. role m \<noteq> ''system'') (history_view (snd example_run))
   \<and> map role (history_view (snd example_run)) = [''user'', ''assistant'']
   \<and> role (hd (history_view (snd example_run))) = ''user''
   \<and> fst (snd (fst example_run))
       = Some (join newline (transcript_lines (\<lambda>r. r) ''2025-01-01 10:00:00'' 1
                               (history_view (snd example_run))))
   \<and> transcript_lines (\<lambda>r. r) ''2025-01-01 10:00:00'' 1 (history_view (snd example_run)) ! 3
       = ''## User (Turn 1)''
   \<and> transcript_lines (\<lambda>r. r) ''2025-01-01 10:00:00'' 1 (history_view (snd example_run)) ! 6
       = ''## Expert (Turn 1)''
   \<and> (\<exists>cs. calls (snd example_run)
             = (UserAgent, 1, [\<lparr>role = ''system'',
                                 content = ''The conversation goal is: goal''\<rparr>]) # cs)"
proof -
  let ?h = "history_view (snd example_run)"
  let ?lines = "transcript_lines (\<lambda>r. r) ''2025-01-01 10:00:00'' 1 ?h"
  note two = two_roles [OF example_run_roles(1)]
  note th = bootstrap_message_not_stored
              [where s = "empty_history 1" and run = scripted_runner and g = "''goal''"
                 and now = "''2025-01-01 10:00:00''" and w = True
                 and capitalize = "\<lambda>r. r",
               OF well_formed_empty_history history_view_empty_history,
               folded example_run_def, unfolded example_run_roles(2)]
  from th have 1: "list_all (\<lambda>m. role m \<noteq> ''system'') ?h" by (rule conjunct1)
  from th two(2) have 3: "fst (snd (fst example_run)) = Some (join newline ?lines)" by simp
  from th have h: "\<forall>j < length ?h. ?lines ! (3 + 3 * j)
               = ''## '' @ (if role (?h ! j) = ''user'' then ''User'' else ''Expert'')
                 @ '' (Turn '' @ str_nat ((j + 2) div 2) @ '')''"
    by (elim conjE)
  have "(0::nat) < length ?h" and "(1::nat) < length ?h" using two(1) by simp_all
  with h have "?lines ! (3 + 3 * 0)
               = ''## '' @ (if role (?h ! 0) = ''user'' then ''User'' else ''Expert'')
                 @ '' (Turn '' @ str_nat ((0 + 2) div 2) @ '')''"
    and "?lines ! (3 + 3 * 1)
               = ''## '' @ (if role (?h ! 1) = ''user'' then ''User'' else ''Expert'')
                 @ '' (Turn '' @ str_nat ((1 + 2) div 2) @ '')''"
    by blast+
  then have 4: "?lines ! 3 = ''## User (Turn 1)''" and 5: "?lines ! 6 = ''## Expert (Turn 1)''"
    using two(3,4) by (simp_all add: str_nat.simps digits_def)
  have "\<not> is_complete (empty_history 1)" by (simp add: is_complete_def empty_history_fields)
  with th have 6: "\<exists>cs. calls (snd example_run)
             = (UserAgent, 1, [\<lparr>role = ''system'',
                                 content = ''The conversation goal is: goal''\<rparr>]) # cs"
    by (simp add: empty_history_fields)
  from 1 example_run_roles(1) two(5) 3 4 5 6 show ?thesis by blast
qed

end
